theory Spec2Isabelle
  imports Complex_Main "HOL-Library.AList"
begin

section \<open>JavaScript primitives used by the sources\<close>

text \<open>
  Strings are lists of characters, one \<^typ>\<open>char\<close> per UTF-16 code unit of the
  JavaScript string; a \<^typ>\<open>char\<close> holds the code units below 256, which covers the
  texts of the examples.  Numbers that hold line numbers, columns, offsets, versions and
  sizes are integers (\<^typ>\<open>int\<close>); the one place where the source multiplies by a
  fraction, \<^verbatim>\<open>maxTotalChars * 0.7\<close>, is modelled with the rounding of IEEE-754
  doubles written out.
\<close>

definition LF :: char where
  "LF = CHR 0x0A"

definition CR :: char where
  "CR = CHR 0x0D"

text \<open>\<^verbatim>\<open>s.split(/\r?\n/)\<close>: the pieces between line breaks; a line break is a line
  feed, optionally preceded by a carriage return.  The result is never empty.\<close>

fun split_from :: "string \<Rightarrow> string \<Rightarrow> string list" where
  "split_from cur [] = [cur]"
| "split_from cur [c] = (if c = LF then [cur, []] else [cur @ [c]])"
| "split_from cur (c # d # cs) =
     (if c = LF then cur # split_from [] (d # cs)
      else if c = CR \<and> d = LF then cur # split_from [] cs
      else split_from (cur @ [c]) (d # cs))"

definition split_lines :: "string \<Rightarrow> string list" where
  "split_lines s = split_from [] s"

text \<open>\<^verbatim>\<open>s.split('\n')\<close>: only the line feed separates.\<close>

fun split_lf_from :: "string \<Rightarrow> string \<Rightarrow> string list" where
  "split_lf_from cur [] = [cur]"
| "split_lf_from cur (c # cs) =
     (if c = LF then cur # split_lf_from [] cs else split_lf_from (cur @ [c]) cs)"

definition split_lf :: "string \<Rightarrow> string list" where
  "split_lf s = split_lf_from [] s"

text \<open>\<^verbatim>\<open>lines.join('\n')\<close>.\<close>

fun join_lf :: "string list \<Rightarrow> string" where
  "join_lf [] = []"
| "join_lf [l] = l"
| "join_lf (l # m # ls) = l @ [LF] @ join_lf (m # ls)"

text \<open>\<^verbatim>\<open>s.slice(a, b)\<close>: a negative index counts from the end, both are clipped to
  the string, and an empty range gives the empty string.\<close>

definition slice :: "'a list \<Rightarrow> int \<Rightarrow> int \<Rightarrow> 'a list" where
  "slice s a b =
     (let n = int (length s);
          from = (if a < 0 then max (n + a) 0 else min a n);
          upto = (if b < 0 then max (n + b) 0 else min b n)
      in take (nat (upto - from)) (drop (nat from) s))"

text \<open>\<^verbatim>\<open>s.slice(a)\<close>, to the end of the list.\<close>

definition slice_from :: "'a list \<Rightarrow> int \<Rightarrow> 'a list" where
  "slice_from s a = slice s a (int (length s))"

text \<open>\<^verbatim>\<open>s.trim()\<close> removes white space at both ends; among the code units below 256
  these are tab, line feed, vertical tab, form feed, carriage return, space and the
  no-break space.\<close>

definition is_space :: "char \<Rightarrow> bool" where
  "is_space c \<longleftrightarrow> c \<in> set [CHR 0x09, CHR 0x0A, CHR 0x0B, CHR 0x0C, CHR 0x0D, CHR 0x20, CHR 0xA0]"

definition trim :: "string \<Rightarrow> string" where
  "trim s = rev (dropWhile is_space (rev (dropWhile is_space s)))"

subsection \<open>The product \<^verbatim>\<open>n * 0.7\<close> in double precision\<close>

text \<open>
  The double nearest to 0.7 is \<open>6305039478318694 / 2 ^ 53\<close>.  The product of an integer
  \<open>n\<close> (below \<open>2 ^ 53\<close> in magnitude, so itself a double) with it is the exact product
  rounded to 53 significant bits, ties to even; \<^verbatim>\<open>Math.floor\<close> then rounds down.
\<close>

fun bit_length :: "nat \<Rightarrow> nat" where
  "bit_length n = (if n = 0 then 0 else Suc (bit_length (n div 2)))"

declare bit_length.simps [simp del]

definition round_to_53_bits :: "nat \<Rightarrow> nat" where
  "round_to_53_bits p =
     (if bit_length p \<le> 53 then p
      else let s = bit_length p - 53;
               q = p div 2 ^ s;
               r = p mod 2 ^ s;
               h = 2 ^ (s - 1)
           in (if r > h \<or> (r = h \<and> odd q) then q + 1 else q) * 2 ^ s)"

definition floor_times_0_7 :: "int \<Rightarrow> int" where
  "floor_times_0_7 n =
     (sgn n * int (round_to_53_bits (nat \<bar>n\<bar> * 6305039478318694))) div 2 ^ 53"

section \<open>Data model\<close>

subsection \<open>Editor protocol types (coc.nvim)\<close>

record Position =
  line :: int
  character :: int

record Range =
  range_start :: Position
  range_end :: Position

text \<open>\<^verbatim>\<open>Range.create\<close> of the client refuses numbers that are negative or above
  \<open>2 ^ 31 - 1\<close>, the largest line or column number of the editor.  The model does not:
  every statement below that depends on it gives it line and column numbers that are not
  negative (coordinates counted from 1 are at least 1).\<close>

definition Range_create :: "int \<Rightarrow> int \<Rightarrow> int \<Rightarrow> int \<Rightarrow> Range" where
  "Range_create sl sc el ec =
     \<lparr>range_start = \<lparr>line = sl, character = sc\<rparr>, range_end = \<lparr>line = el, character = ec\<rparr>\<rparr>"

record TextEdit =
  edit_range :: Range
  newText :: string

definition TextEdit_replace :: "Range \<Rightarrow> string \<Rightarrow> TextEdit" where
  "TextEdit_replace r t = \<lparr>edit_range = r, newText = t\<rparr>"

record TextDocument =
  uri :: string
  languageId :: string
  version :: int
  getText :: string

datatype CompletionItemKind = Kind_Text

text \<open>The label of a completion item is kept as the list of its UTF-16 code units: the
  mark that starts it in the source holds a code unit above 255.\<close>

record CompletionItem =
  label :: "nat list"
  item_kind :: CompletionItemKind
  insertText :: string
  textEdit :: TextEdit
  detail :: string
  documentation :: string
  preselect :: bool
  sortText :: string
  filterText :: string

subsection \<open>interface.ts\<close>

datatype Role = System | User | Assistant | Include

record IMessage =
  role :: Role
  content :: string

record IAPIOptions =
  req_model :: string
  messages :: "IMessage list"
  max_tokens :: "int option"
  req_temperature :: "real option"
  stream :: "bool option"

record IEngineConfig =
  model :: string
  endpointUrl :: string
  proxy :: string
  maxTokens :: int
  temperature :: real
  requestTimeout :: int
  requiresAuth :: bool
  initialPrompt :: string
  tokenPath :: string
  rolesConfigPath :: string
  autoScroll :: "bool option"
  codeSyntaxEnabled :: "bool option"
  preserveFocus :: "bool option"
  populatesOptions :: "bool option"
  openChatCommand :: "string option"
  scratchBufferKeepOpen :: "bool option"
  autoTitle :: "bool option"
  enabled :: "bool option"
  maxContextSize :: "int option"
  includeOpenBuffers :: "bool option"

datatype EditKind = Visual | Line

record IEditRange =
  kind :: EditKind
  start :: "int \<times> int"
  finish :: "int \<times> int"

datatype IChunk = Content string | Reasoning_content string

section \<open>The completion source (AICompletionProvider)\<close>

record ICachedCompletion =
  position :: Position
  documentVersion :: int
  item :: CompletionItem

record AICompletionProvider =
  config :: IEngineConfig
  currentRequestTimeout :: "nat option"
  cachedCompletion :: "ICachedCompletion option"

subsection \<open>Timers of the JavaScript runtime\<close>

text \<open>
  \<^verbatim>\<open>setTimeout\<close> registers a callback under a fresh handle, to run once when the delay
  has passed; \<^verbatim>\<open>clearTimeout\<close> removes the callback registered under a handle and does
  nothing when it has already run.  The only callback of this class is
  \<^verbatim>\<open>() => this.fetchCompletion(document, position)\<close>, so a pending timer holds the two
  arguments.  \<open>fetches\<close> lists the calls of \<^verbatim>\<open>fetchCompletion\<close> that timers have made,
  in order.  Time is in milliseconds.
\<close>

record timer =
  handle :: nat
  due :: nat
  timer_document :: TextDocument
  timer_position :: Position

record world =
  provider :: AICompletionProvider
  now :: nat
  timers :: "timer list"
  next_handle :: nat
  fetches :: "(TextDocument \<times> Position) list"

definition setTimeout :: "TextDocument \<Rightarrow> Position \<Rightarrow> nat \<Rightarrow> world \<Rightarrow> nat \<times> world" where
  "setTimeout document pos delay w =
     (next_handle w,
      w\<lparr>timers := timers w @
            [\<lparr>handle = next_handle w, due = now w + delay,
              timer_document = document, timer_position = pos\<rparr>],
        next_handle := Suc (next_handle w)\<rparr>)"

definition clearTimeout :: "nat \<Rightarrow> world \<Rightarrow> world" where
  "clearTimeout h w = w\<lparr>timers := filter (\<lambda>t. handle t \<noteq> h) (timers w)\<rparr>"

text \<open>The event loop reaches time \<open>t\<close>: every timer due by then runs, earliest first.\<close>

definition advance :: "nat \<Rightarrow> world \<Rightarrow> world" where
  "advance t w =
     (let fired = sort_key due (filter (\<lambda>x. due x \<le> t) (timers w))
      in w\<lparr>now := max (now w) t,
           timers := filter (\<lambda>x. \<not> due x \<le> t) (timers w),
           fetches := fetches w @ map (\<lambda>x. (timer_document x, timer_position x)) fired\<rparr>)"

subsection \<open>scheduleFetch and provideCompletionItems\<close>

definition scheduleFetch :: "TextDocument \<Rightarrow> Position \<Rightarrow> world \<Rightarrow> world" where
  "scheduleFetch document pos w =
     (let w1 = (case currentRequestTimeout (provider w) of
                  Some h \<Rightarrow> clearTimeout h w
                | None \<Rightarrow> w);
          (h, w2) = setTimeout document pos 500 w1
      in w2\<lparr>provider := (provider w2)\<lparr>currentRequestTimeout := Some h\<rparr>\<rparr>)"

definition provideCompletionItems ::
  "TextDocument \<Rightarrow> Position \<Rightarrow> world \<Rightarrow> CompletionItem list \<times> world" where
  "provideCompletionItems document pos w =
     (if enabled (config (provider w)) = Some False then ([], w)
      else
        (case cachedCompletion (provider w) of
           Some c \<Rightarrow>
             if version document = documentVersion c \<and>
                line pos = line (position c) \<and>
                character pos = character (position c)
             then ([item c], w\<lparr>provider := (provider w)\<lparr>cachedCompletion := None\<rparr>\<rparr>)
             else
               ([], scheduleFetch document pos
                      (if version document > documentVersion c
                       then w\<lparr>provider := (provider w)\<lparr>cachedCompletion := None\<rparr>\<rparr>
                       else w))
         | None \<Rightarrow> ([], scheduleFetch document pos w)))"

subsection \<open>Text documents of the editor client\<close>

text \<open>
  \<^verbatim>\<open>document.offsetAt\<close> and \<^verbatim>\<open>document.getText(range)\<close> belong to the editor client,
  not to this repository; they are modelled as the text documents of the language-server
  protocol define them.  A line starts at offset 0 and after every line break (line feed,
  carriage return, or the pair); a position beyond the last line is the end of the text,
  a column at or before 0 is the start of its line, and a column beyond the end of its
  line is the end of the line, before its line break.
\<close>

fun line_offsets_from :: "nat \<Rightarrow> string \<Rightarrow> nat list" where
  "line_offsets_from i [] = []"
| "line_offsets_from i [c] = (if c = LF \<or> c = CR then [i + 1] else [])"
| "line_offsets_from i (c # d # cs) =
     (if c = CR \<and> d = LF then (i + 2) # line_offsets_from (i + 2) cs
      else if c = LF \<or> c = CR then (i + 1) # line_offsets_from (i + 1) (d # cs)
      else line_offsets_from (i + 1) (d # cs))"

definition getLineOffsets :: "string \<Rightarrow> nat list" where
  "getLineOffsets s = 0 # line_offsets_from 0 s"

definition isEOL :: "char \<Rightarrow> bool" where
  "isEOL c \<longleftrightarrow> c = CR \<or> c = LF"

fun ensureBeforeEOL :: "string \<Rightarrow> nat \<Rightarrow> nat \<Rightarrow> nat" where
  "ensureBeforeEOL s offset lineOffset =
     (if offset > lineOffset \<and> offset - 1 < length s \<and> isEOL (s ! (offset - 1))
      then ensureBeforeEOL s (offset - 1) lineOffset
      else offset)"

declare ensureBeforeEOL.simps [simp del]

definition offsetAt :: "string \<Rightarrow> Position \<Rightarrow> nat" where
  "offsetAt s p =
     (let offs = getLineOffsets s
      in if line p \<ge> int (length offs) then length s
         else if line p < 0 then 0
         else
           let lineOffset = offs ! nat (line p)
           in if character p \<le> 0 then lineOffset
              else
                let nextLineOffset =
                      (if line p + 1 < int (length offs) then offs ! nat (line p + 1)
                       else length s);
                    offset = min (int lineOffset + character p) (int nextLineOffset)
                in ensureBeforeEOL s (nat offset) lineOffset)"

text \<open>The text between two positions (\<^verbatim>\<open>substring\<close> swaps its bounds when they are
  out of order).\<close>

definition getText_range :: "string \<Rightarrow> Range \<Rightarrow> string" where
  "getText_range s r =
     (let a = offsetAt s (range_start r); b = offsetAt s (range_end r)
      in take (max a b - min a b) (drop (min a b) s))"

subsection \<open>buildContext\<close>

text \<open>
  \<^verbatim>\<open>workspace.asRelativePath\<close> is a parameter (\<open>asRelativePath\<close>), and
  \<^verbatim>\<open>workspace.documents\<close> is the list \<open>docs\<close> of the open documents.  The loop over
  the documents of the same language carries the text built so far and the number of
  characters used.
\<close>

fun other_buffers ::
  "(string \<Rightarrow> string) \<Rightarrow> int \<Rightarrow> nat \<Rightarrow> TextDocument list \<Rightarrow> string \<Rightarrow> int \<Rightarrow> string" where
  "other_buffers asRelativePath otherFilesBudget n [] otherContext usedChars = otherContext"
| "other_buffers asRelativePath otherFilesBudget n (doc # rest) otherContext usedChars =
     (if usedChars \<ge> otherFilesBudget then otherContext
      else
        let content = getText doc;
            docRelPath = asRelativePath (uri doc);
            snippetSize = min 1000 (otherFilesBudget div (if n = 0 then 1 else int n));
            snippet = slice content 0 snippetSize
        in other_buffers asRelativePath otherFilesBudget n rest
             (otherContext @ [LF] @ ''// File: '' @ docRelPath @ [LF] @ snippet @ [LF] @
                ''...'' @ [LF])
             (usedChars + int (length snippet)))"

definition maxTotalChars :: "IEngineConfig \<Rightarrow> int" where
  "maxTotalChars cfg =
     (case maxContextSize cfg of None \<Rightarrow> 4096 | Some n \<Rightarrow> if n = 0 then 4096 else n)"

definition currentFileBudget :: "IEngineConfig \<Rightarrow> int" where
  "currentFileBudget cfg = floor_times_0_7 (maxTotalChars cfg)"

definition otherFilesBudget :: "IEngineConfig \<Rightarrow> int" where
  "otherFilesBudget cfg = maxTotalChars cfg - currentFileBudget cfg"

definition relevantDocs :: "TextDocument list \<Rightarrow> TextDocument \<Rightarrow> TextDocument list" where
  "relevantDocs docs document =
     filter (\<lambda>d. uri d \<noteq> uri document \<and> languageId d = languageId document) docs"

definition buildContext ::
  "(string \<Rightarrow> string) \<Rightarrow> TextDocument list \<Rightarrow> IEngineConfig \<Rightarrow> TextDocument \<Rightarrow> Position \<Rightarrow> string" where
  "buildContext asRelativePath docs cfg document pos =
     (let includeOpen = (case includeOpenBuffers cfg of None \<Rightarrow> True | Some b \<Rightarrow> b);
          offset = int (offsetAt (getText document) pos);
          txt = getText document;
          halfBudget = currentFileBudget cfg div 2;
          start = max 0 (offset - halfBudget);
          finish = min (int (length txt)) (offset + halfBudget);
          prefix = slice txt start offset;
          suffix = slice txt offset finish;
          relPath = asRelativePath (uri document);
          prompt = [LF] @ ''// File: '' @ relPath @ '' (Current)'' @ [LF] @
                   prefix @ ''<CURSOR>'' @ suffix
      in if includeOpen \<and> otherFilesBudget cfg > 0 then
           let rel = relevantDocs docs document;
               otherContext =
                 other_buffers asRelativePath (otherFilesBudget cfg) (length rel) rel [] 0
           in if otherContext \<noteq> [] then otherContext @ [LF] @ prompt else prompt
         else prompt)"

subsection \<open>fetchCompletion\<close>

text \<open>
  What the editor and the engine answer during one fetch: whether the document is still
  open, the editor mode when the timer fires, the open documents, the outcome of
  \<^verbatim>\<open>engine.execute\<close> (an exception or the completion text), and the editor mode after
  the answer has arrived.
\<close>

datatype engine_error = NetworkError | TimeoutError

record fetch_host =
  documentOpen :: bool
  mode_before :: string
  documents :: "TextDocument list"
  execute_result :: "engine_error + string"
  mode_after :: string

text \<open>The calls a fetch makes on the editor and the engine, in order.\<close>

datatype host_call =
  Call_mode
| Engine_execute IEngineConfig IAPIOptions
| Call_coc_start

text \<open>The character class \<^verbatim>\<open>["\'\w$]\<close> of the word before the cursor.\<close>

definition is_prefix_char :: "char \<Rightarrow> bool" where
  "is_prefix_char c =
     (let n = (of_char c :: nat)
      in (97 \<le> n \<and> n \<le> 122) \<or> (65 \<le> n \<and> n \<le> 90) \<or> (48 \<le> n \<and> n \<le> 57) \<or>
         n = 95 \<or> n = 34 \<or> n = 39 \<or> n = 36)"

definition prefix_word :: "string \<Rightarrow> string" where
  "prefix_word lineText = rev (takeWhile is_prefix_char (rev lineText))"

text \<open>The four characters that start every label, as the source file holds them: their
  code units are 226, 339, 168 and 32 (a space).\<close>

definition label_mark :: "nat list" where
  "label_mark = [226, 339, 168, 32]"

definition code_units :: "string \<Rightarrow> nat list" where
  "code_units s = map of_char s"

definition make_item :: "TextDocument \<Rightarrow> Position \<Rightarrow> string \<Rightarrow> CompletionItem" where
  "make_item document pos completionText =
     (let firstLine = hd (split_lf completionText);
          lbl = (if length firstLine > 30 then slice firstLine 0 30 @ ''...'' else firstLine);
          lineText = getText_range (getText document)
                       (Range_create (line pos) 0 (line pos) (character pos));
          prefixWord = prefix_word lineText;
          startCharacter = character pos - int (length prefixWord);
          replaceRange = Range_create (line pos) startCharacter (line pos) (character pos)
      in \<lparr>label = label_mark @ code_units lbl,
          item_kind = Kind_Text,
          insertText = completionText,
          textEdit = TextEdit_replace replaceRange (prefixWord @ completionText),
          detail = ''AI Suggestion'',
          documentation = completionText,
          preselect = True,
          sortText = ''0000'',
          filterText = prefixWord @ completionText\<rparr>)"

definition requestData :: "IEngineConfig \<Rightarrow> string \<Rightarrow> IAPIOptions" where
  "requestData cfg promptContent =
     \<lparr>req_model = model cfg,
      messages = [\<lparr>role = System, content = initialPrompt cfg\<rparr>,
                  \<lparr>role = User, content = promptContent\<rparr>],
      max_tokens = Some (maxTokens cfg),
      req_temperature = Some (temperature cfg),
      stream = Some False\<rparr>"

definition fetchCompletion ::
  "(string \<Rightarrow> string) \<Rightarrow> fetch_host \<Rightarrow> TextDocument \<Rightarrow> Position \<Rightarrow>
     AICompletionProvider \<Rightarrow> host_call list \<times> AICompletionProvider" where
  "fetchCompletion asRelativePath h document pos p =
     (if \<not> documentOpen h then ([], p)
      else if mode_before h \<noteq> ''i'' then ([Call_mode], p)
      else
        let promptContent = buildContext asRelativePath (documents h) (config p) document pos;
            request = Engine_execute (config p) (requestData (config p) promptContent)
        in (case execute_result h of
              Inl error \<Rightarrow> ([Call_mode, request], p)
            | Inr completionText \<Rightarrow>
                if trim completionText = [] then ([Call_mode, request], p)
                else
                  let p' = p\<lparr>cachedCompletion :=
                              Some \<lparr>position = pos, documentVersion = version document,
                                    item = make_item document pos completionText\<rparr>\<rparr>
                  in if mode_after h = ''i''
                     then ([Call_mode, request, Call_mode, Call_coc_start], p')
                     else ([Call_mode, request, Call_mode], p')))"

subsection \<open>The life of a completion source\<close>

text \<open>
  What can happen to a completion source: the editor asks for completions, time passes
  (and due timers run), or a fetch that a timer started comes to its end.
\<close>

datatype event =
  Request TextDocument Position
| Tick nat
| Fetch_done fetch_host TextDocument Position

definition step :: "(string \<Rightarrow> string) \<Rightarrow> event \<Rightarrow> world \<Rightarrow> world" where
  "step asRelativePath e w =
     (case e of
        Request document pos \<Rightarrow> snd (provideCompletionItems document pos w)
      | Tick t \<Rightarrow> advance t w
      | Fetch_done h document pos \<Rightarrow>
          w\<lparr>provider := snd (fetchCompletion asRelativePath h document pos (provider w))\<rparr>)"

definition run_events :: "(string \<Rightarrow> string) \<Rightarrow> event list \<Rightarrow> world \<Rightarrow> world" where
  "run_events asRelativePath es w = fold (step asRelativePath) es w"

text \<open>The constructor of the class: no timer, nothing cached.\<close>

definition new_provider :: "IEngineConfig \<Rightarrow> AICompletionProvider" where
  "new_provider cfg = \<lparr>config = cfg, currentRequestTimeout = None, cachedCompletion = None\<rparr>"

definition new_world :: "IEngineConfig \<Rightarrow> world" where
  "new_world cfg =
     \<lparr>provider = new_provider cfg, now = 0, timers = [], next_handle = 0, fetches = []\<rparr>"

text \<open>At most one timer is pending, and it is the one the source remembers in
  \<^verbatim>\<open>currentRequestTimeout\<close>.\<close>

definition one_timer :: "world \<Rightarrow> bool" where
  "one_timer w \<longleftrightarrow>
     length (timers w) \<le> 1 \<and>
     (\<forall>t \<in> set (timers w). currentRequestTimeout (provider w) = Some (handle t))"

section \<open>The editor\<close>

text \<open>
  The part of Neovim (with coc.nvim) that \<^verbatim>\<open>aiedit.ts\<close> drives.  Tab pages hold windows,
  a window shows a buffer and has a cursor line; one tab page and one of its windows are
  current.  Buffers are lists of lines, kept under their number.  A buffer set up with
  \<^verbatim>\<open>bufhidden=wipe\<close> disappears when its last window closes.  coc.nvim keeps a document
  for the buffers in \<open>attached\<close>.  \<open>trace\<close> records, in order, what the editor and the
  engine were asked to do.
\<close>

record window =
  winid :: int
  winbuf :: int
  cursor :: int

record tabpage =
  wins_left :: "window list"
  win_cur :: window
  wins_right :: "window list"

text \<open>The editor commands the source sends, in the order of their first use:
  \<^verbatim>\<open>tabnew\<close>, \<^verbatim>\<open>setlocal buftype=nofile bufhidden=wipe noswapfile\<close>, \<^verbatim>\<open>file NAME\<close>,
  \<^verbatim>\<open>rightbelow vsplit\<close>, \<^verbatim>\<open>enew\<close>, \<^verbatim>\<open>diffthis\<close>,
  \<^verbatim>\<open>nnoremap <buffer> KEY :CocCommand NAME<CR>\<close>, \<^verbatim>\<open>tabclose\<close>, \<^verbatim>\<open>buffer N\<close>,
  \<^verbatim>\<open>redraw\<close> and \<^verbatim>\<open>normal! NG$\<close>.\<close>

datatype command =
  Tabnew
| Setlocal_scratch
| File string
| Rightbelow_vsplit
| Enew
| Diffthis
| Nnoremap_buffer string string
| Tabclose
| Buffer int
| Redraw
| Normal_G_end int

datatype entry =
  Command command
| BreakUndo
| RedrawVim
| PauseNotification
| ResumeNotification
| Generate IEngineConfig IAPIOptions
| ApplyEdits int TextEdit

record editor =
  tabs_left :: "tabpage list"
  tab_cur :: tabpage
  tabs_right :: "tabpage list"
  buffers :: "(int \<times> string list) list"
  wipe :: "int list"
  attached :: "int list"
  next_bufnr :: int
  next_winid :: int
  trace :: "entry list"

datatype failure =
  Vim_E784
| Vim_E86 int
| EngineError engine_error
| ConfigError string

definition windows_of :: "tabpage \<Rightarrow> window list" where
  "windows_of t = wins_left t @ [win_cur t] @ wins_right t"

definition all_tabs :: "editor \<Rightarrow> tabpage list" where
  "all_tabs e = tabs_left e @ [tab_cur e] @ tabs_right e"

definition displayed :: "int \<Rightarrow> editor \<Rightarrow> bool" where
  "displayed b e \<longleftrightarrow> b \<in> set (map winbuf (concat (map windows_of (all_tabs e))))"

text \<open>Buffers among \<open>bs\<close> that are set to be wiped and are no longer in any window go.\<close>

definition wipe_hidden :: "int list \<Rightarrow> editor \<Rightarrow> editor" where
  "wipe_hidden bs e =
     e\<lparr>buffers := filter (\<lambda>(b, ls). \<not> (b \<in> set bs \<and> b \<in> set (wipe e) \<and> \<not> displayed b e))
                        (buffers e)\<rparr>"

text \<open>The lines of a buffer, if it exists.\<close>

definition buffer_lines :: "editor \<Rightarrow> int \<Rightarrow> string list option" where
  "buffer_lines e b = map_of (buffers e) b"

definition noted :: "entry \<Rightarrow> editor \<Rightarrow> editor" where
  "noted n e = e\<lparr>trace := trace e @ [n]\<rparr>"

text \<open>\<^verbatim>\<open>bufnr('%')\<close>, \<^verbatim>\<open>line('.')\<close> and \<^verbatim>\<open>getline('.')\<close>.\<close>

definition call_bufnr :: "editor \<Rightarrow> int" where
  "call_bufnr e = winbuf (win_cur (tab_cur e))"

definition call_line :: "editor \<Rightarrow> int" where
  "call_line e = cursor (win_cur (tab_cur e))"

definition call_getline :: "editor \<Rightarrow> string" where
  "call_getline e =
     (case buffer_lines e (call_bufnr e) of
        None \<Rightarrow> []
      | Some ls \<Rightarrow>
          if 1 \<le> call_line e \<and> call_line e \<le> int (length ls)
          then ls ! nat (call_line e - 1) else [])"

definition line_count :: "editor \<Rightarrow> int \<Rightarrow> int" where
  "line_count e b = (case buffer_lines e b of None \<Rightarrow> 0 | Some ls \<Rightarrow> int (length ls))"

text \<open>\<^verbatim>\<open>nvim.command\<close>.  A command that fails raises an error and changes nothing:
  \<^verbatim>\<open>tabclose\<close> fails on the last tab page (E784), \<^verbatim>\<open>buffer N\<close> when there is no
  buffer \<open>N\<close> (E86).  A new tab page opens after the current one; after \<^verbatim>\<open>tabclose\<close> the
  next tab page becomes current, or the previous one when there is none.\<close>

definition nvim_command :: "command \<Rightarrow> editor \<Rightarrow> failure + editor" where
  "nvim_command c e =
     (let e1 = noted (Command c) e; t = tab_cur e
      in case c of
        Tabnew \<Rightarrow>
          Inr (e1\<lparr>tabs_left := tabs_left e @ [t],
                  tab_cur := \<lparr>wins_left = [],
                              win_cur = \<lparr>winid = next_winid e, winbuf = next_bufnr e, cursor = 1\<rparr>,
                              wins_right = []\<rparr>,
                  buffers := AList.update (next_bufnr e) [[]] (buffers e),
                  next_bufnr := next_bufnr e + 1,
                  next_winid := next_winid e + 1\<rparr>)
      | Setlocal_scratch \<Rightarrow> Inr (e1\<lparr>wipe := call_bufnr e # wipe e\<rparr>)
      | File name \<Rightarrow> Inr e1
      | Rightbelow_vsplit \<Rightarrow>
          Inr (e1\<lparr>tab_cur := t\<lparr>wins_left := wins_left t @ [win_cur t],
                                  win_cur := (win_cur t)\<lparr>winid := next_winid e\<rparr>\<rparr>,
                  next_winid := next_winid e + 1\<rparr>)
      | Enew \<Rightarrow>
          Inr (wipe_hidden [call_bufnr e]
                 (e1\<lparr>tab_cur := t\<lparr>win_cur := (win_cur t)\<lparr>winbuf := next_bufnr e, cursor := 1\<rparr>\<rparr>,
                     buffers := AList.update (next_bufnr e) [[]] (buffers e),
                     next_bufnr := next_bufnr e + 1\<rparr>))
      | Diffthis \<Rightarrow> Inr e1
      | Nnoremap_buffer key name \<Rightarrow> Inr e1
      | Tabclose \<Rightarrow>
          if tabs_left e = [] \<and> tabs_right e = [] then Inl Vim_E784
          else
            Inr (wipe_hidden (map winbuf (windows_of t))
                   (case tabs_right e of
                      n # ts \<Rightarrow> e1\<lparr>tab_cur := n, tabs_right := ts\<rparr>
                    | [] \<Rightarrow> e1\<lparr>tab_cur := last (tabs_left e),
                                tabs_left := butlast (tabs_left e)\<rparr>))
      | Buffer n \<Rightarrow>
          if buffer_lines e n = None then Inl (Vim_E86 n)
          else
            Inr (wipe_hidden [call_bufnr e]
                   (e1\<lparr>tab_cur := t\<lparr>win_cur := (win_cur t)\<lparr>winbuf := n, cursor := 1\<rparr>\<rparr>\<rparr>))
      | Redraw \<Rightarrow> Inr e1
      | Normal_G_end n \<Rightarrow>
          Inr (e1\<lparr>tab_cur := t\<lparr>win_cur := (win_cur t)
                   \<lparr>cursor := max 1 (min n (line_count e (call_bufnr e)))\<rparr>\<rparr>\<rparr>))"

text \<open>\<^verbatim>\<open>setbufline(buf, lnum, text)\<close> replaces line \<open>lnum\<close> (or adds a line when \<open>lnum\<close> is
  one past the end) and \<^verbatim>\<open>appendbufline(buf, lnum, lines)\<close> inserts lines after line
  \<open>lnum\<close>; both do nothing for an unknown buffer or a line out of range.\<close>

definition call_setbufline :: "int \<Rightarrow> int \<Rightarrow> string \<Rightarrow> editor \<Rightarrow> editor" where
  "call_setbufline b lnum txt e =
     (case buffer_lines e b of
        None \<Rightarrow> e
      | Some ls \<Rightarrow>
          if 1 \<le> lnum \<and> lnum \<le> int (length ls)
          then e\<lparr>buffers := AList.update b (ls[nat (lnum - 1) := txt]) (buffers e)\<rparr>
          else if lnum = int (length ls) + 1
          then e\<lparr>buffers := AList.update b (ls @ [txt]) (buffers e)\<rparr>
          else e)"

definition call_appendbufline :: "int \<Rightarrow> int \<Rightarrow> string list \<Rightarrow> editor \<Rightarrow> editor" where
  "call_appendbufline b lnum new e =
     (case buffer_lines e b of
        None \<Rightarrow> e
      | Some ls \<Rightarrow>
          if 0 \<le> lnum \<and> lnum \<le> int (length ls)
          then e\<lparr>buffers :=
                   AList.update b (take (nat lnum) ls @ new @ drop (nat lnum) ls) (buffers e)\<rparr>
          else e)"

text \<open>\<^verbatim>\<open>bufwinid(buf)\<close> is the identifier of the first window of the current tab page
  that shows the buffer, or \<open>-1\<close>; \<^verbatim>\<open>win_gotoid(id)\<close> makes the window with that
  identifier current, in whatever tab page it is, and does nothing when there is none.\<close>

definition call_bufwinid :: "int \<Rightarrow> editor \<Rightarrow> int" where
  "call_bufwinid b e =
     (case find (\<lambda>w. winbuf w = b) (windows_of (tab_cur e)) of
        None \<Rightarrow> - 1
      | Some w \<Rightarrow> winid w)"

fun find_window :: "int \<Rightarrow> window list \<Rightarrow> window list \<Rightarrow> tabpage option" where
  "find_window i left [] = None"
| "find_window i left (w # ws) =
     (if winid w = i then Some \<lparr>wins_left = left, win_cur = w, wins_right = ws\<rparr>
      else find_window i (left @ [w]) ws)"

definition focus_window :: "int \<Rightarrow> tabpage \<Rightarrow> tabpage option" where
  "focus_window i t = find_window i [] (windows_of t)"

fun find_tab ::
  "int \<Rightarrow> tabpage list \<Rightarrow> tabpage list \<Rightarrow> (tabpage list \<times> tabpage \<times> tabpage list) option" where
  "find_tab i left [] = None"
| "find_tab i left (t # ts) =
     (case focus_window i t of
        Some t' \<Rightarrow> Some (left, t', ts)
      | None \<Rightarrow> find_tab i (left @ [t]) ts)"

definition call_win_gotoid :: "int \<Rightarrow> editor \<Rightarrow> editor" where
  "call_win_gotoid i e =
     (case find_tab i [] (all_tabs e) of
        None \<Rightarrow> e
      | Some (left, t, right) \<Rightarrow> e\<lparr>tabs_left := left, tab_cur := t, tabs_right := right\<rparr>)"

subsection \<open>Helpers of utils.ts\<close>

text \<open>Modelled from the spec: \<^verbatim>\<open>setBufferLines\<close> of \<^verbatim>\<open>utils.ts\<close>, which is not among
  the sources; the text-surface operation \<^verbatim>\<open>setLines(bufferId, lines)\<close> that rewrites
  the content of a buffer.\<close>

definition setBufferLines :: "int \<Rightarrow> string list \<Rightarrow> editor \<Rightarrow> editor" where
  "setBufferLines b ls e =
     (if buffer_lines e b = None then e else e\<lparr>buffers := AList.update b ls (buffers e)\<rparr>)"

text \<open>Modelled from the spec: \<^verbatim>\<open>getBufferLines\<close> of \<^verbatim>\<open>utils.ts\<close>, which is not among
  the sources; the text-surface operation \<^verbatim>\<open>getLines\<close> over the whole buffer.\<close>

definition getBufferLines :: "int \<Rightarrow> editor \<Rightarrow> string list" where
  "getBufferLines b e = (case buffer_lines e b of None \<Rightarrow> [] | Some ls \<Rightarrow> ls)"

text \<open>Modelled from the spec: \<^verbatim>\<open>moveToLineEnd\<close> of \<^verbatim>\<open>utils.ts\<close>, which is not among
  the sources; the view of the buffer scrolls to its last line.\<close>

definition to_last_line :: "editor \<Rightarrow> int \<Rightarrow> window \<Rightarrow> window" where
  "to_last_line e b w = (if winbuf w = b then w\<lparr>cursor := line_count e b\<rparr> else w)"

definition scroll_tab :: "editor \<Rightarrow> int \<Rightarrow> tabpage \<Rightarrow> tabpage" where
  "scroll_tab e b t =
     \<lparr>wins_left = map (to_last_line e b) (wins_left t),
      win_cur = to_last_line e b (win_cur t),
      wins_right = map (to_last_line e b) (wins_right t)\<rparr>"

definition moveToLineEnd :: "int \<Rightarrow> editor \<Rightarrow> editor" where
  "moveToLineEnd b e =
     e\<lparr>tabs_left := map (scroll_tab e b) (tabs_left e),
       tab_cur := scroll_tab e b (tab_cur e),
       tabs_right := map (scroll_tab e b) (tabs_right e)\<rparr>"

text \<open>Modelled from the spec: \<^verbatim>\<open>breakUndoSequence\<close> of \<^verbatim>\<open>utils.ts\<close>, which is not
  among the sources; it closes the current undo block and changes no text.\<close>

definition breakUndoSequence :: "editor \<Rightarrow> editor" where
  "breakUndoSequence e = noted BreakUndo e"

subsection \<open>Documents of coc.nvim\<close>

text \<open>
  \<^verbatim>\<open>workspace.getDocument\<close> and \<^verbatim>\<open>doc.applyEdits\<close> belong to coc.nvim.  The text of a
  buffer is its lines, each followed by a line feed; an edit replaces the text between
  the two offsets of its range, and the lines of the buffer are the lines of the new
  text.
\<close>

definition buffer_text :: "string list \<Rightarrow> string" where
  "buffer_text ls = concat (map (\<lambda>l. l @ [LF]) ls)"

definition text_lines :: "string \<Rightarrow> string list" where
  "text_lines s =
     (let ps = split_lf s in if 1 < length ps \<and> last ps = [] then butlast ps else ps)"

definition getDocument :: "int \<Rightarrow> editor \<Rightarrow> string list option" where
  "getDocument b e = (if b \<in> set (attached e) then buffer_lines e b else None)"

definition replace_text :: "string \<Rightarrow> TextEdit \<Rightarrow> string" where
  "replace_text s ed =
     (let a = offsetAt s (range_start (edit_range ed));
          b = offsetAt s (range_end (edit_range ed))
      in take (min a b) s @ newText ed @ drop (max a b) s)"

definition applyEdits :: "int \<Rightarrow> TextEdit \<Rightarrow> editor \<Rightarrow> editor" where
  "applyEdits b ed e =
     (case buffer_lines e b of
        None \<Rightarrow> e
      | Some ls \<Rightarrow>
          noted (ApplyEdits b ed)
            (e\<lparr>buffers :=
                 AList.update b (text_lines (replace_text (buffer_text ls) ed)) (buffers e)\<rparr>))"

section \<open>The edit task (AIEdit)\<close>

datatype Task = Edit | Complete

definition INSTRUCTIONS :: "string list" where
  "INSTRUCTIONS =
     [''# AI Edit: <Enter> Apply, q Cancel'',
      ''# --------------------------------------------------'',
      '''']"

record AIEdit =
  task :: Task
  edit_config :: IEngineConfig
  bufnr :: int
  linenr :: int
  currLine :: string
  originalBufnr :: int
  originalRange :: "IEditRange option"
  aiBufnr :: int
  origTempBufnr :: int

text \<open>The field initialisers and the constructor.\<close>

definition new_AIEdit :: "Task \<Rightarrow> IEngineConfig \<Rightarrow> AIEdit" where
  "new_AIEdit k cfg =
     \<lparr>task = k, edit_config = cfg, bufnr = - 1, linenr = - 1, currLine = [],
      originalBufnr = - 1, originalRange = None, aiBufnr = - 1, origTempBufnr = - 1\<rparr>"

text \<open>Sequencing of steps that may raise an error, a run of commands, and a command
  inside \<^verbatim>\<open>try { ... } catch (e) {}\<close> (or sent as a notification), whose error is
  dropped.\<close>

definition then_do :: "failure + 'a \<Rightarrow> ('a \<Rightarrow> failure + 'b) \<Rightarrow> failure + 'b" where
  "then_do m f = (case m of Inl x \<Rightarrow> Inl x | Inr a \<Rightarrow> f a)"

fun commands :: "command list \<Rightarrow> editor \<Rightarrow> failure + editor" where
  "commands [] e = Inr e"
| "commands (c # cs) e = then_do (nvim_command c e) (commands cs)"

definition try_command :: "command \<Rightarrow> editor \<Rightarrow> editor" where
  "try_command c e = (case nvim_command c e of Inl x \<Rightarrow> e | Inr e' \<Rightarrow> e')"

subsection \<open>setupDiffView\<close>

definition setupDiffView :: "string \<Rightarrow> AIEdit \<times> editor \<Rightarrow> failure + AIEdit \<times> editor" where
  "setupDiffView selection = (\<lambda>(t, e).
     then_do (commands [Tabnew, Setlocal_scratch] e) (\<lambda>e1.
       let ai = call_bufnr e1;
           e2 = try_command (File ''AI Output'') e1;
           e3 = setBufferLines ai INSTRUCTIONS e2
       in then_do (commands [Rightbelow_vsplit, Enew, Setlocal_scratch] e3) (\<lambda>e4.
         let orig = call_bufnr e4;
             e5 = try_command (File ''Original Selection'') e4;
             origLines = split_lines selection;
             e6 = setBufferLines orig (INSTRUCTIONS @ origLines) e5
         in then_do (commands [Diffthis,
                       Nnoremap_buffer ''<CR>'' ''coc-ai.editApply'',
                       Nnoremap_buffer ''q'' ''coc-ai.editClose''] e6) (\<lambda>e7.
           let winidAI = call_bufwinid ai e7;
               e8 = call_win_gotoid winidAI e7
           in then_do (commands [Diffthis,
                         Nnoremap_buffer ''<CR>'' ''coc-ai.editApply'',
                         Nnoremap_buffer ''q'' ''coc-ai.editClose''] e8) (\<lambda>e9.
             Inr (t\<lparr>aiBufnr := ai, origTempBufnr := orig\<rparr>, e9))))))"

subsection \<open>close and apply\<close>

definition close :: "AIEdit \<times> editor \<Rightarrow> AIEdit \<times> editor" where
  "close = (\<lambda>(t, e).
     if task t \<noteq> Edit then (t, e)
     else (t\<lparr>aiBufnr := - 1, origTempBufnr := - 1\<rparr>, try_command Tabclose e))"

text \<open>The method \<^verbatim>\<open>apply\<close> is \<open>apply_edit\<close> here.  First, the two branches of
  \<^verbatim>\<open>apply\<close> that turn the stored range and the new lines into
  the region to replace and the replacement text.\<close>

definition replacement :: "IEditRange \<Rightarrow> string list \<Rightarrow> TextEdit" where
  "replacement r lines =
     (case kind r of
        Line \<Rightarrow>
          let startLine = fst (start r) - 1;
              endLine = fst (finish r)
          in TextEdit_replace (Range_create startLine 0 endLine 0) (join_lf lines @ [LF])
      | Visual \<Rightarrow>
          let startRow = fst (start r) - 1;
              startCol = snd (start r) - 1;
              endRow = fst (finish r) - 1;
              endCol = snd (finish r)
          in TextEdit_replace (Range_create startRow startCol endRow endCol) (join_lf lines))"

definition apply_edit :: "AIEdit \<times> editor \<Rightarrow> failure + AIEdit \<times> editor" where
  "apply_edit = (\<lambda>(t, e).
     if task t \<noteq> Edit \<or> aiBufnr t = - 1 then Inr (t, e)
     else
       let allLines = getBufferLines (aiBufnr t) e;
           lines = slice_from allLines (int (length INSTRUCTIONS));
           (t1, e1) = close (t, e);
           winid = call_bufwinid (originalBufnr t1) e1
       in then_do (if winid \<noteq> - 1 then Inr (call_win_gotoid winid e1)
                   else nvim_command (Buffer (originalBufnr t1)) e1) (\<lambda>e2.
            let e3 = breakUndoSequence e2
            in (case originalRange t1 of
                  None \<Rightarrow> Inr (t1, breakUndoSequence e3)
                | Some r \<Rightarrow>
                    (case getDocument (originalBufnr t1) e3 of
                       None \<Rightarrow> Inr (t1, e3)
                     | Some doc \<Rightarrow>
                         Inr (t1, breakUndoSequence
                                    (applyEdits (originalBufnr t1) (replacement r lines) e3))))))"

subsection \<open>append and breakUndoSequence\<close>

definition append_value :: "string \<Rightarrow> AIEdit \<times> editor \<Rightarrow> AIEdit \<times> editor" where
  "append_value v = (\<lambda>(t, e).
     let newlines = split_lines v;
         lastline = currLine t @ hd newlines;
         more = tl newlines;
         e1 = noted PauseNotification e;
         e2 = call_setbufline (bufnr t) (linenr t) lastline e1;
         e3 = (if more \<noteq> [] then call_appendbufline (bufnr t) (linenr t) more e2 else e2);
         t' = (if more \<noteq> [] then t\<lparr>linenr := linenr t + int (length more)\<rparr> else t);
         e4 = try_command (Normal_G_end (linenr t')) e3
     in (t', noted ResumeNotification e4))"

definition edit_breakUndoSequence :: "AIEdit \<times> editor \<Rightarrow> AIEdit \<times> editor" where
  "edit_breakUndoSequence = (\<lambda>(t, e).
     let currBufnr = call_bufnr e;
         e1 = (if currBufnr \<noteq> bufnr t
               then call_win_gotoid (call_bufwinid (bufnr t) e) e else e);
         e2 = breakUndoSequence e1;
         e3 = (if currBufnr \<noteq> bufnr t
               then call_win_gotoid (call_bufwinid (call_bufnr e2) e2) e2 else e2)
     in (t, e3))"

subsection \<open>run\<close>

text \<open>
  \<^verbatim>\<open>parseTaskRole\<close> (roles.ts) and \<^verbatim>\<open>engine.mergeOptions\<close> (engine.ts) are parameters;
  the options they exchange are of any type.  What \<^verbatim>\<open>engine.generate\<close> yields is the
  list \<open>chunks\<close>, followed by the error \<open>stream_end\<close> when the stream breaks.  The state
  of the loop over the chunks is the reasoning so far, the content so far, the task and
  the editor.
\<close>

definition triple_quote :: string where
  "triple_quote = [CHR 0x22, CHR 0x22, CHR 0x22]"

definition on_chunk ::
  "IChunk \<Rightarrow> string \<times> string \<times> AIEdit \<times> editor \<Rightarrow> string \<times> string \<times> AIEdit \<times> editor" where
  "on_chunk chunk = (\<lambda>(reasonBlock, accumulatedContent, t, e).
     case chunk of
       Reasoning_content c \<Rightarrow>
         let reasonBlock' = reasonBlock @ map (\<lambda>x. if x = LF then CHR '' '' else x) c
         in if task t = Complete
            then (reasonBlock', accumulatedContent, t,
                  noted RedrawVim
                    (call_setbufline (bufnr t) (linenr t)
                       (triple_quote @ reasonBlock' @ triple_quote) e))
            else (reasonBlock', accumulatedContent, t, e)
     | Content c \<Rightarrow>
         if task t = Complete then
           let e1 = (if reasonBlock \<noteq> [] then snd (edit_breakUndoSequence (t, e)) else e);
               (t2, e2) = append_value c (t, e1)
           in ([], accumulatedContent, t2\<lparr>currLine := call_getline e2\<rparr>, e2)
         else
           let accumulatedContent' = accumulatedContent @ c;
               lines = split_lines accumulatedContent';
               e1 = setBufferLines (aiBufnr t) (INSTRUCTIONS @ lines) e;
               e2 = moveToLineEnd (aiBufnr t) e1
           in (reasonBlock, accumulatedContent', t, try_command Redraw e2))"

definition run ::
  "(string \<Rightarrow> Task \<Rightarrow> failure + string \<times> 'o) \<Rightarrow> ('o \<Rightarrow> IEngineConfig) \<Rightarrow>
     IChunk list \<Rightarrow> engine_error option \<Rightarrow> string \<Rightarrow> string \<Rightarrow> IEditRange option \<Rightarrow>
     AIEdit \<times> editor \<Rightarrow> failure + AIEdit \<times> editor" where
  "run parseTaskRole mergeOptions chunks stream_end selection rawPrompt rng = (\<lambda>(t0, e).
     let t1 = t0\<lparr>bufnr := call_bufnr e\<rparr>
     in case (if task t1 = Complete
              then Some (t1\<lparr>linenr := call_line e, currLine := call_getline e\<rparr>)
              else (case rng of
                      None \<Rightarrow> None
                    | Some r \<Rightarrow> Some (t1\<lparr>originalBufnr := bufnr t1, originalRange := Some r\<rparr>))) of
          None \<Rightarrow> Inr (t1, e)
        | Some t2 \<Rightarrow>
            let sep = (if selection = [] \<or> rawPrompt = [] then [] else '':'' @ [LF])
            in then_do (parseTaskRole rawPrompt (task t2)) (\<lambda>(prompt0, options).
                 let prompt = prompt0 @ sep @ selection;
                     mergedConfig = mergeOptions options;
                     msgs = \<lparr>role = System, content = initialPrompt mergedConfig\<rparr> #
                            (if prompt \<noteq> [] then [\<lparr>role = User, content = prompt\<rparr>] else []);
                     data = \<lparr>req_model = model mergedConfig, messages = msgs,
                             max_tokens = Some (maxTokens mergedConfig),
                             req_temperature = Some (temperature mergedConfig),
                             stream = Some True\<rparr>
                 in then_do (if task t2 = Edit then setupDiffView selection (t2, e)
                             else Inr (t2, e)) (\<lambda>(t3, e3).
                      let e4 = noted (Generate mergedConfig data) e3;
                          (reasonBlock, accumulatedContent, t5, e5) =
                            fold on_chunk chunks ([], [], t3, e4)
                      in (case stream_end of
                            Some err \<Rightarrow> Inl (EngineError err)
                          | None \<Rightarrow>
                              Inr (if task t5 = Complete then edit_breakUndoSequence (t5, e5)
                                   else (t5, e5))))))"

section \<open>Notions used in the statements\<close>

text \<open>A line of a buffer holds no line break.\<close>

definition clean :: "string \<Rightarrow> bool" where
  "clean l \<longleftrightarrow> LF \<notin> set l \<and> CR \<notin> set l"

text \<open>The offsets at which the lines after the first start, for lines laid out from
  offset \<open>i\<close>, each followed by a line feed.\<close>

fun line_starts :: "nat \<Rightarrow> string list \<Rightarrow> nat list" where
  "line_starts i [] = []"
| "line_starts i (l # ls) = (i + length l + 1) # line_starts (i + length l + 1) ls"

text \<open>The text edits a trace records, in order, and the content a list of chunks
  carries.\<close>

fun edits_of :: "entry list \<Rightarrow> (int \<times> TextEdit) list" where
  "edits_of [] = []"
| "edits_of (ApplyEdits b ed # es) = (b, ed) # edits_of es"
| "edits_of (x # es) = edits_of es"

fun contents_text :: "IChunk list \<Rightarrow> string" where
  "contents_text [] = []"
| "contents_text (Content c # cs) = c @ contents_text cs"
| "contents_text (Reasoning_content c # cs) = contents_text cs"

text \<open>A text laid out as lines with the line breaks between them: the first line, and
  for every further line whether the break before it is a carriage return and a line feed
  (or a line feed alone) and the line.  The layout is well broken when no line holds a
  line feed and no line before a line feed alone ends in a carriage return, which would
  belong to the break.\<close>

fun join_breaks :: "string \<Rightarrow> (bool \<times> string) list \<Rightarrow> string" where
  "join_breaks l [] = l"
| "join_breaks l ((crlf, m) # rest) =
     l @ (if crlf then [CR, LF] else [LF]) @ join_breaks m rest"

fun well_broken :: "string \<Rightarrow> (bool \<times> string) list \<Rightarrow> bool" where
  "well_broken l [] \<longleftrightarrow> LF \<notin> set l"
| "well_broken l ((crlf, m) # rest) \<longleftrightarrow>
     LF \<notin> set l \<and> (crlf \<or> l = [] \<or> last l \<noteq> CR) \<and> well_broken m rest"

text \<open>All windows of an editor.\<close>

definition all_windows :: "editor \<Rightarrow> window list" where
  "all_windows e = concat (map windows_of (all_tabs e))"

text \<open>What a step keeps: the lines of a buffer, the attached documents, the buffers set
  to be wiped and the edits recorded.\<close>

definition keeps :: "int \<Rightarrow> editor \<Rightarrow> editor \<Rightarrow> bool" where
  "keeps b e e' \<longleftrightarrow>
     buffer_lines e' b = buffer_lines e b \<and> attached e' = attached e \<and>
     wipe e' = wipe e \<and> edits_of (trace e') = edits_of (trace e)"

section \<open>Concrete inputs\<close>

definition example_config :: IEngineConfig where
  "example_config =
     \<lparr>model = ''gpt-4o'', endpointUrl = ''https://api.example.com/v1/chat/completions'',
      proxy = [], maxTokens = 256, temperature = 0, requestTimeout = 20,
      requiresAuth = True, initialPrompt = ''Complete the code at <CURSOR>.'',
      tokenPath = ''~/.config/token'', rolesConfigPath = ''~/.config/roles.toml'',
      autoScroll = None, codeSyntaxEnabled = None, preserveFocus = None,
      populatesOptions = None, openChatCommand = None, scratchBufferKeepOpen = None,
      autoTitle = None, enabled = None, maxContextSize = None,
      includeOpenBuffers = None\<rparr>"

definition example_document :: TextDocument where
  "example_document =
     \<lparr>uri = ''file:///work/a.ts'', languageId = ''typescript'', version = 7,
      getText = ''let total = pri''\<rparr>"

definition example_position :: Position where
  "example_position = \<lparr>line = 0, character = 15\<rparr>"

definition example_item :: CompletionItem where
  "example_item =
     \<lparr>label = label_mark @ code_units ''ce * count;'', item_kind = Kind_Text,
      insertText = ''ce * count;'',
      textEdit = TextEdit_replace (Range_create 0 12 0 15) ''price * count;'',
      detail = ''AI Suggestion'', documentation = ''ce * count;'', preselect = True,
      sortText = ''0000'', filterText = ''price * count;''\<rparr>"

definition example_cached :: ICachedCompletion where
  "example_cached = \<lparr>position = example_position, documentVersion = 7, item = example_item\<rparr>"

definition example_world :: world where
  "example_world =
     \<lparr>provider = \<lparr>config = example_config, currentRequestTimeout = None,
                   cachedCompletion = Some example_cached\<rparr>,
      now = 1000, timers = [], next_handle = 0, fetches = []\<rparr>"

text \<open>The same world with the completion source switched off in the configuration.\<close>

definition disabled_world :: world where
  "disabled_world =
     example_world\<lparr>provider := (provider example_world)\<lparr>config := example_config\<lparr>enabled := Some False\<rparr>\<rparr>\<rparr>"

text \<open>A request one column to the right of the cached position.\<close>

definition next_position :: Position where
  "next_position = \<lparr>line = 0, character = 16\<rparr>"

text \<open>An editor in insert mode whose request fails, and one that has left insert mode.\<close>

definition failing_host :: fetch_host where
  "failing_host =
     \<lparr>documentOpen = True, mode_before = ''i'', documents = [],
      execute_result = Inl TimeoutError, mode_after = ''i''\<rparr>"

definition normal_mode_host :: fetch_host where
  "normal_mode_host =
     \<lparr>documentOpen = True, mode_before = ''n'', documents = [],
      execute_result = Inr ''ce * count;'', mode_after = ''n''\<rparr>"

text \<open>Open documents for the context assembly, and a small budget of 90 characters.\<close>

definition helper_document :: TextDocument where
  "helper_document =
     \<lparr>uri = ''file:///work/b.ts'', languageId = ''typescript'', version = 1,
      getText = ''export const price = 3;''\<rparr>"

definition types_document :: TextDocument where
  "types_document =
     \<lparr>uri = ''file:///work/c.ts'', languageId = ''typescript'', version = 4,
      getText = ''type T = number''\<rparr>"

definition readme_document :: TextDocument where
  "readme_document =
     \<lparr>uri = ''file:///work/README.md'', languageId = ''markdown'', version = 2,
      getText = ''# Work''\<rparr>"

definition long_document :: TextDocument where
  "long_document =
     \<lparr>uri = ''file:///work/long.ts'', languageId = ''typescript'', version = 1,
      getText = replicate 1229 (CHR ''x'')\<rparr>"

definition small_config :: IEngineConfig where
  "small_config = example_config\<lparr>maxContextSize := Some 90\<rparr>"

text \<open>A budget below zero, which \<^verbatim>\<open>maxContextSize || 4096\<close> lets through.\<close>

definition negative_config :: IEngineConfig where
  "negative_config = example_config\<lparr>maxContextSize := Some (- 10)\<rparr>"

text \<open>An editor with one tab page and one window on buffer 1, which has six lines, the
  fifth being \<open>old\<close>, and the cursor on it; buffer 7 is loaded but in no window.\<close>

definition example_editor :: editor where
  "example_editor =
     \<lparr>tabs_left = [],
      tab_cur = \<lparr>wins_left = [], win_cur = \<lparr>winid = 1000, winbuf = 1, cursor = 5\<rparr>,
                 wins_right = []\<rparr>,
      tabs_right = [],
      buffers = [(1, [''one'', ''abcdefg'', ''three'', ''four'', ''old'', ''six'']),
                 (7, [''notes''])],
      wipe = [], attached = [1, 7], next_bufnr = 8, next_winid = 1002, trace = []\<rparr>"

text \<open>A role parser that takes the prompt as it is, and options that change nothing.\<close>

definition plain_role :: "string \<Rightarrow> Task \<Rightarrow> failure + string \<times> unit" where
  "plain_role rawPrompt k = Inr (rawPrompt, ())"

definition no_options :: "unit \<Rightarrow> IEngineConfig" where
  "no_options u = example_config"

definition line_range :: IEditRange where
  "line_range = \<lparr>kind = Line, start = (5, 1), finish = (5, 1)\<rparr>"

definition char_range :: IEditRange where
  "char_range = \<lparr>kind = Visual, start = (2, 3), finish = (2, 5)\<rparr>"

text \<open>The example editor with a second tab page to the right, on a scratch buffer
  (\<^verbatim>\<open>bufhidden=wipe\<close>).\<close>

definition scratch_tab_editor :: editor where
  "scratch_tab_editor =
     example_editor\<lparr>tabs_right :=
       [\<lparr>wins_left = [], win_cur = \<lparr>winid = 1001, winbuf = 7, cursor = 1\<rparr>,
         wins_right = []\<rparr>],
       wipe := [7]\<rparr>"

text \<open>The edit task and the editor once \<^verbatim>\<open>run\<close> has set up the diff view, in a new tab
  page between the two others; and once the request is out and the chunks \<open>ne\<close> and \<open>w\<close>
  have arrived.\<close>

definition diff_task :: AIEdit where
  "diff_task =
     \<lparr>task = Edit, edit_config = example_config, bufnr = 1, linenr = - 1, currLine = [],
      originalBufnr = 1, originalRange = Some line_range, aiBufnr = 8, origTempBufnr = 9\<rparr>"

definition opened_editor :: editor where
  "opened_editor =
     \<lparr>tabs_left = [\<lparr>wins_left = [], win_cur = \<lparr>winid = 1000, winbuf = 1, cursor = 5\<rparr>,
                     wins_right = []\<rparr>],
      tab_cur = \<lparr>wins_left = [], win_cur = \<lparr>winid = 1002, winbuf = 8, cursor = 1\<rparr>,
                 wins_right = [\<lparr>winid = 1003, winbuf = 9, cursor = 1\<rparr>]\<rparr>,
      tabs_right = [\<lparr>wins_left = [], win_cur = \<lparr>winid = 1001, winbuf = 7, cursor = 1\<rparr>,
                      wins_right = []\<rparr>],
      buffers = [(1, [''one'', ''abcdefg'', ''three'', ''four'', ''old'', ''six'']),
                 (7, [''notes'']),
                 (8, INSTRUCTIONS),
                 (9, INSTRUCTIONS @ [''old''])],
      wipe = [9, 8, 7], attached = [1, 7], next_bufnr = 10, next_winid = 1004,
      trace =
        [Command Tabnew, Command Setlocal_scratch, Command (File ''AI Output''),
         Command Rightbelow_vsplit, Command Enew, Command Setlocal_scratch,
         Command (File ''Original Selection''), Command Diffthis,
         Command (Nnoremap_buffer ''<CR>'' ''coc-ai.editApply''),
         Command (Nnoremap_buffer ''q'' ''coc-ai.editClose''),
         Command Diffthis,
         Command (Nnoremap_buffer ''<CR>'' ''coc-ai.editApply''),
         Command (Nnoremap_buffer ''q'' ''coc-ai.editClose'')]\<rparr>"

definition example_request :: IAPIOptions where
  "example_request =
     \<lparr>req_model = ''gpt-4o'',
      messages = [\<lparr>role = System, content = ''Complete the code at <CURSOR>.''\<rparr>,
                  \<lparr>role = User, content = ''fix:'' @ [LF] @ ''old''\<rparr>],
      max_tokens = Some 256, req_temperature = Some 0, stream = Some True\<rparr>"

definition diff_editor :: editor where
  "diff_editor =
     opened_editor
       \<lparr>tab_cur := \<lparr>wins_left = [], win_cur = \<lparr>winid = 1002, winbuf = 8, cursor = 4\<rparr>,
                    wins_right = [\<lparr>winid = 1003, winbuf = 9, cursor = 1\<rparr>]\<rparr>,
        buffers := [(1, [''one'', ''abcdefg'', ''three'', ''four'', ''old'', ''six'']),
                    (7, [''notes'']),
                    (8, INSTRUCTIONS @ [''new'']),
                    (9, INSTRUCTIONS @ [''old''])],
        trace := trace opened_editor @
                 [Generate example_config example_request, Command Redraw, Command Redraw]\<rparr>"

text \<open>The editor with the diff view once the chunks \<open>fo\<close>, \<open>o\<close> with a carriage
  return, and a line feed with \<open>bar\<close> and a line feed have arrived.\<close>

definition split_editor :: editor where
  "split_editor =
     opened_editor
       \<lparr>tab_cur := \<lparr>wins_left = [], win_cur = \<lparr>winid = 1002, winbuf = 8, cursor = 6\<rparr>,
                    wins_right = [\<lparr>winid = 1003, winbuf = 9, cursor = 1\<rparr>]\<rparr>,
        buffers := [(1, [''one'', ''abcdefg'', ''three'', ''four'', ''old'', ''six'']),
                    (7, [''notes'']),
                    (8, INSTRUCTIONS @ [''foo'', ''bar'', []]),
                    (9, INSTRUCTIONS @ [''old''])],
        trace := trace opened_editor @ [Command Redraw, Command Redraw, Command Redraw]\<rparr>"

section \<open>Verification\<close>

subsection \<open>The single-slot cache\<close>

text \<open>
  Claim C3.  While the completion source is not switched off
  (\<^verbatim>\<open>engine.config.enabled\<close> is not \<^verbatim>\<open>false\<close>) and an item is cached: a request whose
  position and document version both equal the cached ones returns exactly that item and
  empties the cache, changing nothing else, so that the same request repeated at once
  finds the cache empty and gets the empty list; a request whose document version is
  strictly newer than the cached one gets the empty list and the cache is emptied.
\<close>

theorem cache_hit_one_shot:
  assumes en: "enabled (config (provider w)) \<noteq> Some False"
    and c: "cachedCompletion (provider w) = Some c"
  shows "(version document = documentVersion c \<and> line pos = line (position c) \<and>
          character pos = character (position c) \<longrightarrow>
            provideCompletionItems document pos w =
              ([item c], w\<lparr>provider := (provider w)\<lparr>cachedCompletion := None\<rparr>\<rparr>) \<and>
            fst (provideCompletionItems document pos
                  (snd (provideCompletionItems document pos w))) = [] \<and>
            cachedCompletion (provider (snd (provideCompletionItems document pos
                  (snd (provideCompletionItems document pos w))))) = None) \<and>
         (version document > documentVersion c \<longrightarrow>
            fst (provideCompletionItems document pos w) = [] \<and>
            cachedCompletion (provider (snd (provideCompletionItems document pos w))) = None)"
  using en c
  by (simp add: provideCompletionItems_def scheduleFetch_def setTimeout_def clearTimeout_def
      split: option.splits prod.splits)

text \<open>In the example world the request at the cached key is a hit, and the same request
  for version 8 of the document discards the item cached for version 7.\<close>

theorem cache_hit_one_shot_witness:
  "enabled (config (provider example_world)) \<noteq> Some False \<and>
   cachedCompletion (provider example_world) = Some example_cached \<and>
   provideCompletionItems example_document example_position example_world =
     ([example_item],
      example_world\<lparr>provider := (provider example_world)\<lparr>cachedCompletion := None\<rparr>\<rparr>) \<and>
   fst (provideCompletionItems (example_document\<lparr>version := 8\<rparr>) example_position
          example_world) = [] \<and>
   cachedCompletion (provider (snd (provideCompletionItems (example_document\<lparr>version := 8\<rparr>)
     example_position example_world))) = None"
  using cache_hit_one_shot [of example_world example_cached example_document example_position]
    cache_hit_one_shot [of example_world example_cached "example_document\<lparr>version := 8\<rparr>"
      example_position]
  by (simp add: example_world_def example_config_def example_cached_def example_document_def)

text \<open>With the source switched off the guard at the head of
  \<^verbatim>\<open>provideCompletionItems\<close> answers first: the matching item is neither returned nor
  cleared.\<close>

theorem cache_hit_disabled_counterexample:
  "cachedCompletion (provider disabled_world) = Some example_cached \<and>
   version example_document = documentVersion example_cached \<and>
   line example_position = line (position example_cached) \<and>
   character example_position = character (position example_cached) \<and>
   provideCompletionItems example_document example_position disabled_world =
     ([], disabled_world)"
  by (simp add: provideCompletionItems_def disabled_world_def example_world_def
      example_cached_def example_document_def)

text \<open>
  Claim C10.  While the completion source is not switched off and an item is cached for
  the current document version but for another position, the request returns the empty
  list, leaves the cached item in its slot and schedules a new background fetch: a
  timer for this document and position, due 500 ms from now, is pending and is the one
  the source remembers.
\<close>

theorem cache_miss_other_position:
  assumes en: "enabled (config (provider w)) \<noteq> Some False"
    and c: "cachedCompletion (provider w) = Some c"
    and v: "documentVersion c = version document"
    and p: "line pos \<noteq> line (position c) \<or> character pos \<noteq> character (position c)"
  shows "provideCompletionItems document pos w = ([], scheduleFetch document pos w) \<and>
         cachedCompletion (provider (scheduleFetch document pos w)) = Some c \<and>
         currentRequestTimeout (provider (scheduleFetch document pos w)) = Some (next_handle w) \<and>
         \<lparr>handle = next_handle w, due = now w + 500, timer_document = document,
           timer_position = pos\<rparr> \<in> set (timers (scheduleFetch document pos w))"
  using en c v p
  by (auto simp: provideCompletionItems_def scheduleFetch_def setTimeout_def clearTimeout_def
      split: option.splits)

text \<open>In the example world, a request one column to the right of the cached position.\<close>

theorem cache_miss_other_position_witness:
  "enabled (config (provider example_world)) \<noteq> Some False \<and>
   cachedCompletion (provider example_world) = Some example_cached \<and>
   documentVersion example_cached = version example_document \<and>
   character next_position \<noteq> character (position example_cached) \<and>
   provideCompletionItems example_document next_position example_world =
     ([], scheduleFetch example_document next_position example_world) \<and>
   cachedCompletion (provider (scheduleFetch example_document next_position example_world)) =
     Some example_cached \<and>
   timers (scheduleFetch example_document next_position example_world) =
     [\<lparr>handle = 0, due = 1500, timer_document = example_document,
       timer_position = next_position\<rparr>]"
  using cache_miss_other_position [of example_world example_cached example_document next_position]
  by (simp add: example_world_def example_config_def example_cached_def example_document_def
      next_position_def example_position_def scheduleFetch_def setTimeout_def)

text \<open>With the source switched off the cached item also stays, but no fetch is
  scheduled: the world is returned as it was, with no timer.\<close>

theorem cache_miss_disabled_counterexample:
  "cachedCompletion (provider disabled_world) = Some example_cached \<and>
   documentVersion example_cached = version example_document \<and>
   character next_position \<noteq> character (position example_cached) \<and>
   provideCompletionItems example_document next_position disabled_world = ([], disabled_world) \<and>
   timers disabled_world = []"
  by (simp add: provideCompletionItems_def disabled_world_def example_world_def
      example_cached_def example_document_def next_position_def example_position_def)

subsection \<open>A fetch that succeeds\<close>

text \<open>With the text \<open>let total = pri\<close>, the cursor at its end and the answer
  \<open>ce * count;\<close>, a fetch caches the item of the examples: the word before the cursor
  is \<open>pri\<close>, and the item replaces it by the word and the answer.\<close>

lemma make_item_example:
  "make_item example_document example_position ''ce * count;'' = example_item"
  by (simp add: make_item_def example_item_def example_document_def example_position_def
      split_lf_def slice_def getText_range_def Range_create_def offsetAt_def
      getLineOffsets_def ensureBeforeEOL.simps isEOL_def prefix_word_def is_prefix_char_def
      LF_def CR_def Let_def)

lemma fetch_success_example:
  "fetchCompletion id (failing_host\<lparr>execute_result := Inr ''ce * count;''\<rparr>)
     example_document example_position (new_provider example_config) =
   ([Call_mode,
     Engine_execute example_config
       (requestData example_config
          (buildContext id [] example_config example_document example_position)),
     Call_mode, Call_coc_start],
    (new_provider example_config)\<lparr>cachedCompletion := Some example_cached\<rparr>)"
proof -
  have "version example_document = 7"
    by (simp add: example_document_def)
  then show ?thesis
    by (simp add: fetchCompletion_def Let_def failing_host_def new_provider_def trim_def
        is_space_def make_item_example example_cached_def)
qed

subsection \<open>A fetch that fails\<close>

text \<open>
  Claim C7.  The calls a fetch makes are the mode query, the request to the engine and
  the call that shows the suggestions; none of them writes a buffer.  When the editor is
  not in insert mode as the timer fires, or when the request raises an error, the
  provider is returned unchanged (in particular the cached-completion slot), the world is
  as before, and the suggestions are not shown; in the first case nothing but the mode
  query has happened, so no request was sent.
\<close>

theorem fetch_failure_silent:
  assumes "mode_before h \<noteq> ''i'' \<or> (\<exists>e. execute_result h = Inl e)"
  shows "snd (fetchCompletion rel h document pos (provider w)) = provider w \<and>
         step rel (Fetch_done h document pos) w = w \<and>
         Call_coc_start \<notin> set (fst (fetchCompletion rel h document pos (provider w))) \<and>
         (mode_before h \<noteq> ''i'' \<longrightarrow>
            fst (fetchCompletion rel h document pos (provider w)) \<in> {[], [Call_mode]})"
  using assms
  by (auto simp: fetchCompletion_def step_def Let_def split: sum.splits)

text \<open>An editor back in normal mode, and a request that times out.\<close>

theorem fetch_failure_silent_witness:
  "mode_before normal_mode_host \<noteq> ''i'' \<and>
   execute_result failing_host = Inl TimeoutError \<and>
   snd (fetchCompletion id normal_mode_host example_document example_position
     (provider example_world)) = provider example_world \<and>
   fst (fetchCompletion id normal_mode_host example_document example_position
     (provider example_world)) \<in> {[], [Call_mode]} \<and>
   snd (fetchCompletion id failing_host example_document example_position
     (provider example_world)) = provider example_world \<and>
   Call_coc_start \<notin> set (fst (fetchCompletion id failing_host example_document
     example_position (provider example_world))) \<and>
   step id (Fetch_done failing_host example_document example_position) example_world =
     example_world"
  using fetch_failure_silent [of normal_mode_host id example_document example_position example_world]
    fetch_failure_silent [of failing_host id example_document example_position example_world]
  by (simp add: normal_mode_host_def failing_host_def)

subsection \<open>The debounce timer\<close>

lemma one_timer_scheduleFetch:
  assumes "one_timer w"
  shows "one_timer (scheduleFetch document pos w)"
proof (cases "currentRequestTimeout (provider w)")
  case None
  with assms have "timers w = []"
    by (cases "timers w") (auto simp: one_timer_def)
  with None show ?thesis
    by (simp add: one_timer_def scheduleFetch_def setTimeout_def)
next
  case (Some h)
  with assms have "filter (\<lambda>t. handle t \<noteq> h) (timers w) = []"
    by (auto simp: one_timer_def filter_empty_conv)
  with Some show ?thesis
    by (simp add: one_timer_def scheduleFetch_def setTimeout_def clearTimeout_def)
qed

lemma timers_scheduleFetch:
  assumes "one_timer w"
  shows "timers (scheduleFetch document pos w) =
           [\<lparr>handle = next_handle w, due = now w + 500, timer_document = document,
             timer_position = pos\<rparr>]"
proof (cases "currentRequestTimeout (provider w)")
  case None
  with assms have "timers w = []"
    by (cases "timers w") (auto simp: one_timer_def)
  with None show ?thesis
    by (simp add: scheduleFetch_def setTimeout_def)
next
  case (Some h)
  with assms have "filter (\<lambda>t. handle t \<noteq> h) (timers w) = []"
    by (auto simp: one_timer_def filter_empty_conv)
  with Some show ?thesis
    by (simp add: scheduleFetch_def setTimeout_def clearTimeout_def)
qed

lemma scheduleFetch_fields:
  "now (scheduleFetch document pos w) = now w"
  "next_handle (scheduleFetch document pos w) = Suc (next_handle w)"
  "fetches (scheduleFetch document pos w) = fetches w"
  by (simp_all add: scheduleFetch_def setTimeout_def clearTimeout_def split: option.splits)

lemma one_timer_cache:
  "one_timer (w\<lparr>provider := (provider w)\<lparr>cachedCompletion := x\<rparr>\<rparr>) = one_timer w"
  by (simp add: one_timer_def)

lemma one_timer_provideCompletionItems:
  assumes "one_timer w"
  shows "one_timer (snd (provideCompletionItems document pos w))"
  using assms
  by (auto simp: provideCompletionItems_def one_timer_cache one_timer_scheduleFetch
      split: option.splits)

lemma length_filter_le_one: "length xs \<le> Suc 0 \<Longrightarrow> length (filter P xs) \<le> Suc 0"
  by (meson le_trans length_filter_le)

lemma one_timer_advance:
  assumes "one_timer w"
  shows "one_timer (advance t w)"
  using assms by (auto simp: one_timer_def advance_def Let_def length_filter_le_one)

lemma advance_fields:
  "now (advance t w) = max (now w) t"
  "next_handle (advance t w) = next_handle w"
  by (simp_all add: advance_def Let_def)

lemma advance_early:
  assumes "timers w = [x]" "t < due x"
  shows "timers (advance t w) = [x]" "fetches (advance t w) = fetches w"
  using assms by (simp_all add: advance_def Let_def)

lemma advance_late:
  assumes "timers w = [x]" "due x \<le> t"
  shows "timers (advance t w) = []"
    "fetches (advance t w) = fetches w @ [(timer_document x, timer_position x)]"
  using assms by (simp_all add: advance_def Let_def)

lemma fetchCompletion_timeout:
  "currentRequestTimeout (snd (fetchCompletion rel h document pos p)) = currentRequestTimeout p"
  by (simp add: fetchCompletion_def Let_def split: sum.splits)

lemma one_timer_step:
  assumes "one_timer w"
  shows "one_timer (step rel e w)"
proof (cases e)
  case (Request document pos)
  with assms show ?thesis by (simp add: step_def one_timer_provideCompletionItems)
next
  case (Tick t)
  with assms show ?thesis by (simp add: step_def one_timer_advance)
next
  case (Fetch_done h document pos)
  with assms show ?thesis by (simp add: step_def one_timer_def fetchCompletion_timeout)
qed

lemma one_timer_run_events:
  "one_timer w \<Longrightarrow> one_timer (run_events rel es w)"
  unfolding run_events_def
  by (induction es arbitrary: w) (simp_all add: one_timer_step)

lemma one_timer_new_world: "one_timer (new_world cfg)"
  by (simp add: one_timer_def new_world_def)

text \<open>
  Claim C4.  In every state a completion source can reach from its construction (by
  completion requests, the passing of time and fetches coming to their end) at most one
  timer is pending, and a call of \<^verbatim>\<open>scheduleFetch\<close> leaves exactly the timer it
  installs.  Three calls at times \<open>t1 \<le> t2 \<le> t3\<close>, each less than 500 ms after the one
  before, leave one pending timer, for the last document and position; no fetch starts
  before \<open>t3 + 500\<close>, and from then on exactly one has started, with the document and
  position of the last call.
\<close>

theorem debounce_single_timer:
  fixes d1 d2 d3 :: TextDocument and p1 p2 p3 :: Position
  assumes w: "w = run_events rel es (new_world cfg)"
    and t1: "now w \<le> t1"
    and t2: "t1 \<le> t2" "t2 < t1 + 500"
    and t3: "t2 \<le> t3" "t3 < t2 + 500"
    and w3: "w3 = scheduleFetch d3 p3 (advance t3 (scheduleFetch d2 p2 (advance t2
                    (scheduleFetch d1 p1 (advance t1 w)))))"
  shows "length (timers w) \<le> 1 \<and>
         timers (scheduleFetch d1 p1 w) =
           [\<lparr>handle = next_handle w, due = now w + 500, timer_document = d1,
             timer_position = p1\<rparr>] \<and>
         timers w3 =
           [\<lparr>handle = next_handle w + 2, due = t3 + 500, timer_document = d3,
             timer_position = p3\<rparr>] \<and>
         fetches w3 = fetches (advance t1 w) \<and>
         (T < t3 + 500 \<longrightarrow> fetches (advance T w3) = fetches (advance t1 w)) \<and>
         (t3 + 500 \<le> T \<longrightarrow>
            fetches (advance T w3) = fetches (advance t1 w) @ [(d3, p3)] \<and>
            timers (advance T w3) = [])"
proof -
  have inv: "one_timer w"
    unfolding w by (rule one_timer_run_events [OF one_timer_new_world])
  define a1 where "a1 = advance t1 w"
  define s1 where "s1 = scheduleFetch d1 p1 a1"
  define a2 where "a2 = advance t2 s1"
  define s2 where "s2 = scheduleFetch d2 p2 a2"
  define a3 where "a3 = advance t3 s2"
  have w3': "w3 = scheduleFetch d3 p3 a3"
    by (simp add: w3 a1_def s1_def a2_def s2_def a3_def)
  have a1: "one_timer a1" "now a1 = t1" "next_handle a1 = next_handle w"
    using inv t1 by (simp_all add: a1_def one_timer_advance advance_fields)
  have s1: "timers s1 = [\<lparr>handle = next_handle w, due = t1 + 500, timer_document = d1,
      timer_position = p1\<rparr>]" "one_timer s1" "now s1 = t1"
    "next_handle s1 = Suc (next_handle w)" "fetches s1 = fetches a1"
    using a1 by (simp_all add: s1_def timers_scheduleFetch one_timer_scheduleFetch
        scheduleFetch_fields)
  have a2: "one_timer a2" "now a2 = t2" "next_handle a2 = Suc (next_handle w)"
    "fetches a2 = fetches a1"
    using s1 t2 advance_early [OF s1(1), of t2]
    by (simp_all add: a2_def one_timer_advance advance_fields)
  have s2: "timers s2 = [\<lparr>handle = Suc (next_handle w), due = t2 + 500, timer_document = d2,
      timer_position = p2\<rparr>]" "one_timer s2" "now s2 = t2"
    "next_handle s2 = Suc (Suc (next_handle w))" "fetches s2 = fetches a1"
    using a2 by (simp_all add: s2_def timers_scheduleFetch one_timer_scheduleFetch
        scheduleFetch_fields)
  have a3: "one_timer a3" "now a3 = t3" "next_handle a3 = Suc (Suc (next_handle w))"
    "fetches a3 = fetches a1"
    using s2 t3 advance_early [OF s2(1), of t3]
    by (simp_all add: a3_def one_timer_advance advance_fields)
  have s3: "timers w3 = [\<lparr>handle = next_handle w + 2, due = t3 + 500, timer_document = d3,
      timer_position = p3\<rparr>]" "fetches w3 = fetches a1"
    using a3 by (simp_all add: w3' timers_scheduleFetch scheduleFetch_fields)
  have early: "fetches (advance T w3) = fetches a1" if "T < t3 + 500"
    using advance_early [OF s3(1), of T] that s3(2) by simp
  have late: "fetches (advance T w3) = fetches a1 @ [(d3, p3)] \<and> timers (advance T w3) = []"
    if "t3 + 500 \<le> T"
    using advance_late [OF s3(1), of T] that s3(2) by simp
  from inv have "length (timers w) \<le> 1"
    by (simp add: one_timer_def)
  moreover note timers_scheduleFetch [OF inv, of d1 p1] s3 early late
  ultimately show ?thesis
    by (simp add: a1_def)
qed

text \<open>Three calls at 1000, 1100 and 1400 ms on a fresh completion source: by 2000 ms one
  fetch has started, for the third call.\<close>

theorem debounce_single_timer_witness:
  "fetches (advance 2000 (scheduleFetch (example_document\<lparr>version := 3\<rparr>) next_position
      (advance 1400 (scheduleFetch (example_document\<lparr>version := 2\<rparr>) example_position
        (advance 1100 (scheduleFetch example_document example_position
          (advance 1000 (new_world example_config)))))))) =
     [(example_document\<lparr>version := 3\<rparr>, next_position)]"
proof -
  have reach: "new_world example_config = run_events id [] (new_world example_config)"
    by (simp add: run_events_def)
  have t1: "now (new_world example_config) \<le> 1000"
    by (simp add: new_world_def)
  have before: "fetches (advance 1000 (new_world example_config)) = []"
    by (simp add: advance_def new_world_def)
  have "(1400::nat) + 500 \<le> 2000"
    by simp
  with debounce_single_timer [OF reach t1, of 1100 1400 _ "example_document\<lparr>version := 3\<rparr>"
      next_position "example_document\<lparr>version := 2\<rparr>" example_position
      example_document example_position 2000, OF _ _ _ _ refl]
  have "fetches (advance 2000 (scheduleFetch (example_document\<lparr>version := 3\<rparr>) next_position
      (advance 1400 (scheduleFetch (example_document\<lparr>version := 2\<rparr>) example_position
        (advance 1100 (scheduleFetch example_document example_position
          (advance 1000 (new_world example_config)))))))) =
      fetches (advance 1000 (new_world example_config)) @
        [(example_document\<lparr>version := 3\<rparr>, next_position)]"
    by simp
  with before show ?thesis
    by simp
qed

subsection \<open>Context assembly\<close>

lemma slice_nonneg:
  assumes "0 \<le> a" "0 \<le> b"
  shows "slice s a b = take (nat b - nat a) (drop (nat a) s)"
  using assms
  by (auto simp: slice_def Let_def min_def nat_diff_distrib')

lemma share_bound:
  fixes b :: int and n k :: nat
  assumes b: "0 < b" and k: "k < n"
  shows "int k * (b div int n) < b"
proof -
  define q where "q = b div int n"
  from k have n: "0 < int n" by simp
  have q0: "0 \<le> q"
    using b n by (simp add: q_def pos_imp_zdiv_nonneg_iff)
  have "b = int n * q + b mod int n"
    by (simp add: q_def)
  moreover have "0 \<le> b mod int n"
    using n by simp
  ultimately have nq: "int n * q \<le> b"
    by linarith
  from k have "int k \<le> int n - 1" by simp
  with q0 have kq: "int k * q \<le> (int n - 1) * q"
    by (simp add: mult_right_mono)
  show ?thesis
  proof (cases "q = 0")
    case True
    with b show ?thesis by (simp add: q_def)
  next
    case False
    with q0 have "0 < q" by simp
    then have "(int n - 1) * q < int n * q"
      by (simp add: left_diff_distrib)
    with kq nq show ?thesis
      unfolding q_def by linarith
  qed
qed

lemma other_buffers_all:
  assumes b: "0 < budget"
    and len: "length ds \<le> n"
    and used: "used \<le> int (n - length ds) * (budget div int n)"
  shows "other_buffers rel budget n ds ctx used =
           ctx @ concat (map (\<lambda>d. [LF] @ ''// File: '' @ rel (uri d) @ [LF] @
                   take (nat (min 1000 (budget div int n))) (getText d) @ [LF] @ ''...'' @ [LF]) ds)"
  using len used
proof (induction ds arbitrary: ctx used)
  case Nil
  then show ?case by simp
next
  case (Cons d ds)
  define q where "q = budget div int n"
  from Cons.prems(1) have n: "0 < n" "length ds \<le> n" "n - Suc (length ds) < n" by simp_all
  have q0: "0 \<le> q"
    using b n by (simp add: q_def pos_imp_zdiv_nonneg_iff)
  have "int (n - Suc (length ds)) * q < budget"
    unfolding q_def by (rule share_bound [OF b n(3)])
  with Cons.prems(2) have go: "\<not> used \<ge> budget"
    by (simp add: q_def)
  have n0: "(if n = 0 then 1 else int n) = int n"
    using n by simp
  have snip: "slice (getText d) 0 (min 1000 q) = take (nat (min 1000 q)) (getText d)"
    using q0 by (simp add: slice_nonneg)
  define m where "m = int (n - Suc (length ds))"
  define l where "l = int (length (take (nat (min 1000 q)) (getText d)))"
  have "l \<le> q"
    using q0 by (simp add: l_def)
  moreover have "used \<le> m * q"
    using Cons.prems(2) by (simp add: m_def q_def)
  ultimately have "used + l \<le> m * q + q"
    by linarith
  moreover have "int (n - length ds) = m + 1"
    using Cons.prems(1) by (simp add: m_def)
  then have "int (n - length ds) * q = m * q + q"
    by (simp add: distrib_right)
  ultimately have used': "used + int (length (take (nat (min 1000 q)) (getText d)))
      \<le> int (n - length ds) * q"
    by (simp add: l_def)
  show ?case
    using go n0 snip Cons.IH [OF n(2) used' [unfolded q_def]]
    by (simp add: Let_def q_def)
qed

lemma floor_times_0_7_nonneg: "0 \<le> n \<Longrightarrow> 0 \<le> floor_times_0_7 n"
  by (simp add: floor_times_0_7_def pos_imp_zdiv_nonneg_iff sgn_if)

lemma other_buffers_empty_iff:
  assumes "0 < budget"
  shows "other_buffers rel budget (length ds) ds [] 0 = [] \<longleftrightarrow> ds = []"
  using other_buffers_all [OF assms, of ds "length ds" 0 rel "[]"]
  by (cases ds) simp_all

lemma buildContext_shape:
  fixes cfg :: IEngineConfig and document :: TextDocument and docs :: "TextDocument list"
    and pos :: Position
  defines "off \<equiv> offsetAt (getText document) pos"
    and "h \<equiv> nat (currentFileBudget cfg div 2)"
    and "others \<equiv> relevantDocs docs document"
  defines "share \<equiv> nat (min 1000 (otherFilesBudget cfg div int (length others)))"
  assumes budget: "0 \<le> maxTotalChars cfg"
  shows "buildContext rel docs cfg document pos =
           (if includeOpenBuffers cfg \<noteq> Some False \<and> 0 < otherFilesBudget cfg \<and> others \<noteq> []
            then concat (map (\<lambda>d. [LF] @ ''// File: '' @ rel (uri d) @ [LF] @
                            take share (getText d) @ [LF] @ ''...'' @ [LF]) others) @ [LF]
            else []) @
           [LF] @ ''// File: '' @ rel (uri document) @ '' (Current)'' @ [LF] @
           drop (off - h) (take off (getText document)) @ ''<CURSOR>'' @
           take h (drop off (getText document))"
proof -
  have cur: "0 \<le> currentFileBudget cfg div 2"
    using budget by (simp add: currentFileBudget_def floor_times_0_7_nonneg pos_imp_zdiv_nonneg_iff)
  have pre: "slice (getText document) (max 0 (int off - currentFileBudget cfg div 2)) (int off) =
      drop (off - h) (take off (getText document))"
    using cur by (simp add: slice_nonneg h_def drop_take nat_diff_distrib' max_def)
  have suf: "slice (getText document) (int off)
      (min (int (length (getText document))) (int off + currentFileBudget cfg div 2)) =
      take h (drop off (getText document))"
    using cur by (auto simp: slice_nonneg h_def min_def nat_add_distrib)
  have oth: "other_buffers rel (otherFilesBudget cfg) (length others) others [] 0 =
      concat (map (\<lambda>d. [LF] @ ''// File: '' @ rel (uri d) @ [LF] @
                            take share (getText d) @ [LF] @ ''...'' @ [LF]) others)"
    if "0 < otherFilesBudget cfg"
    using other_buffers_all [OF that, of others "length others" 0 rel "[]"]
    by (simp add: share_def)
  show ?thesis
    using pre suf oth other_buffers_empty_iff [of "otherFilesBudget cfg" rel others]
    by (auto simp: buildContext_def Let_def off_def [symmetric] others_def [symmetric]
        split: option.splits)
qed

lemma bit_length_le: "p < 2 ^ k \<Longrightarrow> bit_length p \<le> k"
proof (induction k arbitrary: p)
  case 0
  then show ?case by (simp add: bit_length.simps)
next
  case (Suc k)
  show ?case
  proof (cases "p = 0")
    case True
    then show ?thesis by (simp add: bit_length.simps)
  next
    case False
    from Suc.prems have "p div 2 < 2 ^ k" by simp
    then have "bit_length (p div 2) \<le> k" by (rule Suc.IH)
    with False show ?thesis by (simp add: bit_length.simps [of p])
  qed
qed

lemma round_to_53_bits_near:
  assumes p: "p < 2 ^ 84"
  shows "int p - 2 ^ 30 \<le> int (round_to_53_bits p) \<and> int (round_to_53_bits p) \<le> int p + 2 ^ 30"
proof (cases "bit_length p \<le> 53")
  case True
  then show ?thesis by (simp add: round_to_53_bits_def)
next
  case False
  define s where "s = bit_length p - 53"
  define q where "q = p div 2 ^ s"
  define r where "r = p mod 2 ^ s"
  define h :: nat where "h = 2 ^ (s - 1)"
  define a where "a = q * 2 ^ s"
  from False have s1: "1 \<le> s" by (simp add: s_def)
  from bit_length_le [OF p] have "s - 1 \<le> 30" by (simp add: s_def)
  then have "(2::nat) ^ (s - 1) \<le> 2 ^ 30"
    by (rule power_increasing) simp
  then have h: "h \<le> 2 ^ 30" by (simp add: h_def)
  from s1 have two: "(2::nat) ^ s = 2 * h"
    by (simp add: h_def power_eq_if)
  have pa: "p = a + r"
    unfolding a_def q_def r_def by (rule div_mult_mod_eq [symmetric])
  have r: "r < 2 * h"
    unfolding two [symmetric] r_def by simp
  have "round_to_53_bits p = (if r > h \<or> (r = h \<and> odd q) then q + 1 else q) * 2 ^ s"
    using False unfolding round_to_53_bits_def Let_def s_def q_def r_def h_def by simp
  also have "\<dots> = (if r > h \<or> (r = h \<and> odd q) then a + 2 * h else a)"
    unfolding a_def two [symmetric] by simp
  finally have R: "round_to_53_bits p = (if r > h \<or> (r = h \<and> odd q) then a + 2 * h else a)" .
  show ?thesis
    using pa r h unfolding R by (auto split: if_splits)
qed

lemma floor_times_0_7_share:
  assumes n: "0 \<le> n" "n < 2 ^ 31"
  shows "7 * n div 10 - 1 \<le> floor_times_0_7 n \<and> floor_times_0_7 n \<le> 7 * n div 10"
proof (cases "n = 0")
  case True
  then show ?thesis
    by (simp add: floor_times_0_7_def round_to_53_bits_def bit_length.simps)
next
  case False
  define p where "p = nat \<bar>n\<bar> * 6305039478318694"
  define R where "R = int (round_to_53_bits p)"
  define K where "K = 7 * n div 10"
  from n have ip: "int p = n * 6305039478318694"
    by (simp add: p_def)
  from n have "int p < 2 ^ 31 * 6305039478318694"
    unfolding ip by simp
  then have "int p < 2 ^ 84" by simp
  then have "p < 2 ^ 84"
    by (metis of_nat_less_iff of_nat_numeral of_nat_power)
  from round_to_53_bits_near [OF this]
  have near: "int p - 2 ^ 30 \<le> R" "R \<le> int p + 2 ^ 30"
    by (simp_all add: R_def)
  have K: "10 * K \<le> 7 * n" "7 * n \<le> 10 * K + 9"
    unfolding K_def by presburger+
  have up: "R < (K + 1) * 2 ^ 53"
    using near K n unfolding ip by simp
  have lo: "(K - 1) * 2 ^ 53 \<le> R"
    using near K n unfolding ip by simp
  have "(K - 1) * 2 ^ 53 div 2 ^ 53 \<le> R div 2 ^ 53"
    using lo by (rule zdiv_mono1) simp
  then have "K - 1 \<le> R div 2 ^ 53"
    by simp
  moreover have "(R + (- (K + 1)) * 2 ^ 53) div 2 ^ 53 < 0"
    using up by (simp add: pos_imp_zdiv_neg_iff)
  then have "R div 2 ^ 53 \<le> K"
    unfolding div_mult_self1 [of "2 ^ 53 :: int" R "- (K + 1)", simplified] by simp
  moreover from False n have "floor_times_0_7 n = R div 2 ^ 53"
    by (simp add: floor_times_0_7_def R_def p_def)
  ultimately show ?thesis
    by (simp add: K_def)
qed

lemma small_budget:
  "maxTotalChars small_config = 90" "currentFileBudget small_config = 62"
  "otherFilesBudget small_config = 28" "includeOpenBuffers small_config = None"
  by (simp_all add: otherFilesBudget_def currentFileBudget_def maxTotalChars_def
      small_config_def example_config_def floor_times_0_7_def round_to_53_bits_def
      bit_length.simps)

lemma default_budget:
  "maxTotalChars example_config = 4096" "currentFileBudget example_config = 2867"
  "otherFilesBudget example_config = 1229" "includeOpenBuffers example_config = None"
  by (simp_all add: otherFilesBudget_def currentFileBudget_def maxTotalChars_def
      example_config_def floor_times_0_7_def round_to_53_bits_def bit_length.simps)

lemma example_offset: "offsetAt ''let total = pri'' example_position = 15"
  by (simp add: offsetAt_def getLineOffsets_def example_position_def ensureBeforeEOL.simps
      isEOL_def LF_def CR_def)

text \<open>Outside the budgets of the statement below: with a budget of \<open>- 10\<close> characters
  the share of the current file is \<open>- 7\<close> and half of it \<open>- 4\<close>; at offset 2 the window
  holds nothing before the cursor and, its end counted from the end of the text, eleven
  characters after it.\<close>

lemma negative_budget_window:
  "maxTotalChars negative_config = - 10 \<and> currentFileBudget negative_config = - 7 \<and>
   buildContext id [] negative_config example_document \<lparr>line = 0, character = 2\<rparr> =
     [LF] @ ''// File: file:///work/a.ts (Current)'' @ [LF] @ ''<CURSOR>t total = p''"
proof -
  have budget: "maxTotalChars negative_config = - 10" "currentFileBudget negative_config = - 7"
    "otherFilesBudget negative_config = - 3"
    by (simp_all add: otherFilesBudget_def currentFileBudget_def maxTotalChars_def
        negative_config_def example_config_def floor_times_0_7_def round_to_53_bits_def
        bit_length.simps)
  have "offsetAt ''let total = pri'' \<lparr>line = 0, character = 2\<rparr> = 2"
    by (simp add: offsetAt_def getLineOffsets_def ensureBeforeEOL.simps isEOL_def LF_def CR_def)
  then show ?thesis
    by (simp add: buildContext_def Let_def budget example_document_def slice_def)
qed

text \<open>
  Claim C5.  For a budget that is a whole number of characters, not negative and below
  \<open>2 ^ 31\<close> (the configured \<^verbatim>\<open>maxContextSize\<close>, or 4096 when none or 0 is
  configured), the share kept for the
  current file, \<^verbatim>\<open>Math.floor(budget * 0.7)\<close> in double precision, is seven tenths of the
  budget rounded down, or one less, and the rest is the share of the other buffers.  The
  context ends with the annotated window of the current file: the characters from half of
  that share (rounded down) before the cursor up to the cursor, the cursor mark, and as
  many characters after it, both clipped to the text.  When including open buffers is not
  switched off, the other share is positive and other open documents of the same
  language exist, the window is preceded by one annotated entry for each of them, in
  order, holding the first characters of the document: as many as the other share
  divided evenly among these documents, but never more than 1000.
\<close>

theorem context_budget_split:
  fixes cfg :: IEngineConfig and document :: TextDocument and docs :: "TextDocument list"
    and pos :: Position
  defines "off \<equiv> offsetAt (getText document) pos"
    and "h \<equiv> nat (currentFileBudget cfg div 2)"
    and "others \<equiv> relevantDocs docs document"
  defines "share \<equiv> nat (min 1000 (otherFilesBudget cfg div int (length others)))"
  assumes budget: "0 \<le> maxTotalChars cfg" "maxTotalChars cfg < 2 ^ 31"
  shows "7 * maxTotalChars cfg div 10 - 1 \<le> currentFileBudget cfg \<and>
         currentFileBudget cfg \<le> 7 * maxTotalChars cfg div 10 \<and>
         otherFilesBudget cfg = maxTotalChars cfg - currentFileBudget cfg \<and>
         buildContext rel docs cfg document pos =
           (if includeOpenBuffers cfg \<noteq> Some False \<and> 0 < otherFilesBudget cfg \<and> others \<noteq> []
            then concat (map (\<lambda>d. [LF] @ ''// File: '' @ rel (uri d) @ [LF] @
                            take share (getText d) @ [LF] @ ''...'' @ [LF]) others) @ [LF]
            else []) @
           [LF] @ ''// File: '' @ rel (uri document) @ '' (Current)'' @ [LF] @
           drop (off - h) (take off (getText document)) @ ''<CURSOR>'' @
           take h (drop off (getText document))"
  using floor_times_0_7_share [OF budget]
    buildContext_shape [OF budget(1), of rel docs document pos]
  by (simp add: currentFileBudget_def otherFilesBudget_def off_def h_def others_def share_def)

text \<open>A budget of 90 characters gives 62 to the current file and 28 to the two other
  TypeScript documents, 14 characters each; the Markdown document is left out.\<close>

theorem context_budget_split_witness:
  "0 \<le> maxTotalChars small_config \<and> maxTotalChars small_config < 2 ^ 31 \<and>
   currentFileBudget small_config = 62 \<and> otherFilesBudget small_config = 28 \<and>
   buildContext id [helper_document, readme_document, types_document, example_document]
     small_config example_document example_position =
     [LF] @ ''// File: file:///work/b.ts'' @ [LF] @ ''export const p'' @ [LF] @ ''...'' @ [LF] @
     [LF] @ ''// File: file:///work/c.ts'' @ [LF] @ ''type T = numbe'' @ [LF] @ ''...'' @ [LF] @
     [LF] @ [LF] @ ''// File: file:///work/a.ts (Current)'' @ [LF] @
     ''let total = pri<CURSOR>''"
proof -
  have others: "relevantDocs [helper_document, readme_document, types_document,
      example_document] example_document = [helper_document, types_document]"
    by (simp add: relevantDocs_def helper_document_def readme_document_def
        types_document_def example_document_def)
  have texts: "getText helper_document = ''export const price = 3;''"
    "getText types_document = ''type T = number''"
    "getText example_document = ''let total = pri''"
    "uri helper_document = ''file:///work/b.ts''" "uri types_document = ''file:///work/c.ts''"
    "uri example_document = ''file:///work/a.ts''"
    by (simp_all add: helper_document_def types_document_def example_document_def)
  from context_budget_split [of small_config id
      "[helper_document, readme_document, types_document, example_document]"
      example_document example_position]
  show ?thesis
    by (simp add: small_budget others example_offset texts)
qed

text \<open>With the default budget of 4096 characters and one other document of 1229
  characters, the even share is all 1229 characters, yet only the first 1000 are taken.\<close>

theorem context_slice_cap_counterexample:
  "length (relevantDocs [long_document] example_document) = 1 \<and>
   otherFilesBudget example_config = 1229 \<and>
   length (getText long_document) = 1229 \<and>
   buildContext id [long_document] example_config example_document example_position =
     [LF] @ ''// File: file:///work/long.ts'' @ [LF] @ replicate 1000 (CHR ''x'') @ [LF] @
     ''...'' @ [LF] @
     [LF] @ [LF] @ ''// File: file:///work/a.ts (Current)'' @ [LF] @
     ''let total = pri<CURSOR>'' \<and>
   buildContext id [long_document] example_config example_document example_position \<noteq>
     [LF] @ ''// File: file:///work/long.ts'' @ [LF] @ take 1229 (getText long_document) @
     [LF] @ ''...'' @ [LF] @
     [LF] @ [LF] @ ''// File: file:///work/a.ts (Current)'' @ [LF] @
     ''let total = pri<CURSOR>''"
proof -
  have others: "relevantDocs [long_document] example_document = [long_document]"
    by (simp add: relevantDocs_def long_document_def example_document_def)
  have texts: "getText long_document = replicate 1229 (CHR ''x'')"
    "getText example_document = ''let total = pri''"
    "uri long_document = ''file:///work/long.ts''"
    "uri example_document = ''file:///work/a.ts''"
    by (simp_all add: long_document_def example_document_def)
  have built: "buildContext id [long_document] example_config example_document
      example_position =
     [LF] @ ''// File: file:///work/long.ts'' @ [LF] @ replicate 1000 (CHR ''x'') @ [LF] @
     ''...'' @ [LF] @
     [LF] @ [LF] @ ''// File: file:///work/a.ts (Current)'' @ [LF] @
     ''let total = pri<CURSOR>''"
    by (simp add: buildContext_def Let_def default_budget others example_offset texts
        slice_def)
  have short: "length (buildContext id [long_document] example_config example_document
      example_position) = 1098"
    unfolding built by simp
  have long: "length ([LF] @ ''// File: file:///work/long.ts'' @ [LF] @
     take 1229 (getText long_document) @ [LF] @ ''...'' @ [LF] @
     [LF] @ [LF] @ ''// File: file:///work/a.ts (Current)'' @ [LF] @
     ''let total = pri<CURSOR>'') = 1327"
    by (simp add: texts)
  have "buildContext id [long_document] example_config example_document
      example_position \<noteq>
     [LF] @ ''// File: file:///work/long.ts'' @ [LF] @ take 1229 (getText long_document) @
     [LF] @ ''...'' @ [LF] @
     [LF] @ [LF] @ ''// File: file:///work/a.ts (Current)'' @ [LF] @
     ''let total = pri<CURSOR>''"
  proof
    assume "buildContext id [long_document] example_config example_document
      example_position =
     [LF] @ ''// File: file:///work/long.ts'' @ [LF] @ take 1229 (getText long_document) @
     [LF] @ ''...'' @ [LF] @
     [LF] @ [LF] @ ''// File: file:///work/a.ts (Current)'' @ [LF] @
     ''let total = pri<CURSOR>''"
    with short have "length ([LF] @ ''// File: file:///work/long.ts'' @ [LF] @
     take 1229 (getText long_document) @ [LF] @ ''...'' @ [LF] @
     [LF] @ [LF] @ ''// File: file:///work/a.ts (Current)'' @ [LF] @
     ''let total = pri<CURSOR>'') = 1098"
      by simp
    with long show False
      by simp
  qed
  with built others show ?thesis
    by (simp add: default_budget texts)
qed

section \<open>The edit task\<close>

subsection \<open>The text of a buffer and its lines\<close>


lemma LF_neq_CR [simp]: "LF \<noteq> CR" "CR \<noteq> LF"
  by (simp_all add: LF_def CR_def)

lemma line_offsets_from_line:
  assumes "clean l"
  shows "line_offsets_from i (l @ LF # rest) =
           (i + length l + 1) # line_offsets_from (i + length l + 1) rest"
  using assms
proof (induction l arbitrary: i)
  case Nil
  then show ?case by (cases rest) simp_all
next
  case (Cons c l)
  then have c: "c \<noteq> LF" "c \<noteq> CR" and l: "clean l"
    by (auto simp: clean_def)
  obtain d ds where d: "l @ LF # rest = d # ds"
    by (cases "l @ LF # rest") simp_all
  have "line_offsets_from i ((c # l) @ LF # rest) = line_offsets_from (i + 1) (l @ LF # rest)"
    using c by (simp add: d)
  with Cons.IH [OF l, of "i + 1"] show ?case
    by simp
qed

lemma buffer_text_Cons: "buffer_text (l # ls) = l @ LF # buffer_text ls"
  by (simp add: buffer_text_def)

lemma buffer_text_append: "buffer_text (xs @ ys) = buffer_text xs @ buffer_text ys"
  by (simp add: buffer_text_def)

lemma buffer_text_Nil: "buffer_text [] = []"
  by (simp add: buffer_text_def)

lemma line_offsets_from_buffer_text:
  assumes "\<forall>l \<in> set ls. clean l"
  shows "line_offsets_from i (buffer_text ls) = line_starts i ls"
  using assms
  by (induction ls arbitrary: i)
    (simp_all add: buffer_text_Nil buffer_text_Cons line_offsets_from_line)

lemma length_line_starts: "length (line_starts i ls) = length ls"
  by (induction ls arbitrary: i) simp_all

lemma line_starts_nth:
  "k < length ls \<Longrightarrow>
     (i # line_starts i ls) ! k = i + length (buffer_text (take k ls)) \<and>
     line_starts i ls ! k = i + length (buffer_text (take k ls)) + length (ls ! k) + 1"
proof (induction ls arbitrary: i k)
  case Nil
  then show ?case by simp
next
  case (Cons l ls)
  show ?case
  proof (cases k)
    case 0
    then show ?thesis by (simp add: buffer_text_Nil)
  next
    case (Suc j)
    with Cons.prems have "j < length ls" by simp
    from Cons.IH [OF this, of "i + length l + 1"] Suc show ?thesis
      by (simp add: buffer_text_Cons)
  qed
qed

lemma line_starts_last:
  "(i # line_starts i ls) ! length ls = i + length (buffer_text ls)"
proof (induction ls arbitrary: i)
  case Nil
  then show ?case by (simp add: buffer_text_Nil)
next
  case (Cons l ls)
  from Cons.IH [of "i + length l + 1"] show ?case
    by (simp add: buffer_text_Cons)
qed

lemma buffer_text_nth:
  assumes "k < length ls" "j < length (ls ! k)"
  shows "buffer_text ls ! (length (buffer_text (take k ls)) + j) = ls ! k ! j"
proof -
  have "buffer_text ls = buffer_text (take k ls) @ buffer_text (drop k ls)"
    by (simp flip: buffer_text_append)
  also have "buffer_text (drop k ls) = ls ! k @ LF # buffer_text (drop (Suc k) ls)"
    using assms(1) by (simp add: buffer_text_Cons flip: Cons_nth_drop_Suc)
  finally show ?thesis
    using assms(2) by (simp add: nth_append)
qed

lemma ensureBeforeEOL_stays:
  assumes "offset - 1 < length s \<Longrightarrow> \<not> isEOL (s ! (offset - 1))"
  shows "ensureBeforeEOL s offset lineOffset = offset"
  using assms by (subst ensureBeforeEOL.simps) auto

lemma offsetAt_in_line:
  assumes cl: "\<forall>l \<in> set ls. clean l"
    and k: "k < length ls"
    and c: "0 \<le> c" "c \<le> int (length (ls ! k))"
  shows "offsetAt (buffer_text ls) \<lparr>line = int k, character = c\<rparr> =
           length (buffer_text (take k ls)) + nat c"
proof -
  define p where "p = length (buffer_text (take k ls))"
  have offs: "getLineOffsets (buffer_text ls) = 0 # line_starts 0 ls"
    by (simp add: getLineOffsets_def line_offsets_from_buffer_text [OF cl])
  from line_starts_nth [OF k, of 0]
  have here: "(0 # line_starts 0 ls) ! k = p"
    and nxt: "(0 # line_starts 0 ls) ! Suc k = p + length (ls ! k) + 1"
    by (simp_all add: p_def)
  show ?thesis
  proof (cases "c = 0")
    case True
    with k here show ?thesis
      by (simp add: offsetAt_def offs Let_def length_line_starts p_def)
  next
    case False
    with c obtain j where j: "nat c = Suc j" "j < length (ls ! k)"
      by (cases "nat c") auto
    from buffer_text_nth [OF k j(2)] have "buffer_text ls ! (p + j) = ls ! k ! j"
      by (simp add: p_def)
    moreover from cl k j(2) have "clean (ls ! k)" "ls ! k ! j \<in> set (ls ! k)"
      by simp_all
    ultimately have "\<not> isEOL (buffer_text ls ! (p + j))"
      by (auto simp: isEOL_def clean_def)
    then have "ensureBeforeEOL (buffer_text ls) (p + nat c) p = p + nat c"
      by (intro ensureBeforeEOL_stays) (simp add: j(1))
    moreover from c have "min (int p + c) (int (Suc (p + length (ls ! k)))) = int p + c"
      by simp
    moreover have "nat (int k + 1) = Suc k" "nat (int p + c) = p + nat c"
      using c by (simp_all add: nat_add_distrib)
    ultimately show ?thesis
      using k c False here nxt
      by (simp add: offsetAt_def offs Let_def length_line_starts flip: p_def)
  qed
qed

lemma offsetAt_line_start:
  assumes cl: "\<forall>l \<in> set ls. clean l"
    and k: "k \<le> length ls"
  shows "offsetAt (buffer_text ls) \<lparr>line = int k, character = 0\<rparr> =
           length (buffer_text (take k ls))"
proof (cases "k < length ls")
  case True
  from offsetAt_in_line [OF cl True, of 0] show ?thesis by simp
next
  case False
  with k have k': "k = length ls" by simp
  have offs: "getLineOffsets (buffer_text ls) = 0 # line_starts 0 ls"
    by (simp add: getLineOffsets_def line_offsets_from_buffer_text [OF cl])
  from line_starts_last [of 0 ls] show ?thesis
    by (simp add: offsetAt_def offs Let_def length_line_starts k')
qed

lemma take_buffer_text:
  "take (length (buffer_text (take k ls))) (buffer_text ls) = buffer_text (take k ls)"
proof -
  have "buffer_text ls = buffer_text (take k ls) @ buffer_text (drop k ls)"
    by (simp flip: buffer_text_append)
  then show ?thesis
    by (metis append_eq_conv_conj)
qed

lemma drop_buffer_text:
  "drop (length (buffer_text (take k ls))) (buffer_text ls) = buffer_text (drop k ls)"
proof -
  have "buffer_text ls = buffer_text (take k ls) @ buffer_text (drop k ls)"
    by (simp flip: buffer_text_append)
  then show ?thesis
    by (metis append_eq_conv_conj)
qed

lemma split_lf_from_line:
  assumes "LF \<notin> set l"
  shows "split_lf_from acc (l @ LF # rest) = (acc @ l) # split_lf_from [] rest"
  using assms by (induction l arbitrary: acc) auto

lemma split_lf_buffer_text:
  assumes "\<forall>l \<in> set ls. LF \<notin> set l"
  shows "split_lf_from [] (buffer_text ls) = ls @ [[]]"
  using assms
  by (induction ls)
    (simp_all add: buffer_text_Nil buffer_text_Cons split_lf_from_line)

lemma text_lines_buffer_text:
  assumes "\<forall>l \<in> set ls. LF \<notin> set l" "ls \<noteq> []"
  shows "text_lines (buffer_text ls) = ls"
  using assms by (simp add: text_lines_def split_lf_def split_lf_buffer_text)

lemma join_lf_buffer_text: "ns \<noteq> [] \<Longrightarrow> join_lf ns @ [LF] = buffer_text ns"
  by (induction ns rule: join_lf.induct) (simp_all add: buffer_text_Cons buffer_text_Nil)


lemma replace_lines:
  assumes cl: "\<forall>l \<in> set ls. clean l" and cn: "\<forall>l \<in> set ns. clean l"
    and S: "1 \<le> S" "S \<le> E" "E \<le> int (length ls)"
  shows "text_lines (replace_text (buffer_text ls)
           (replacement \<lparr>kind = Line, start = (S, c1), finish = (E, c2)\<rparr> ns)) =
         take (nat (S - 1)) ls @ (if ns = [] then [[]] else ns) @ drop (nat E) ls"
proof -
  define ns' where "ns' = (if ns = [] then [[]] else ns)"
  have ns': "ns' \<noteq> []" "\<forall>l \<in> set ns'. LF \<notin> set l" "join_lf ns @ [LF] = buffer_text ns'"
    using cn by (auto simp: ns'_def clean_def join_lf_buffer_text buffer_text_def)
  from S have a: "offsetAt (buffer_text ls) \<lparr>line = S - 1, character = 0\<rparr> =
      length (buffer_text (take (nat (S - 1)) ls))"
    using offsetAt_line_start [OF cl, of "nat (S - 1)"] by simp
  from S have b: "offsetAt (buffer_text ls) \<lparr>line = E, character = 0\<rparr> =
      length (buffer_text (take (nat E) ls))"
    using offsetAt_line_start [OF cl, of "nat E"] by simp
  have "take (nat (S - 1)) ls = take (nat (S - 1)) (take (nat E) ls)"
    using S by (simp add: min_def)
  then have "buffer_text (take (nat E) ls) =
      buffer_text (take (nat (S - 1)) ls) @ buffer_text (drop (nat (S - 1)) (take (nat E) ls))"
    by (metis append_take_drop_id buffer_text_append)
  then have le: "length (buffer_text (take (nat (S - 1)) ls)) \<le>
      length (buffer_text (take (nat E) ls))"
    by simp
  have "replace_text (buffer_text ls)
      (replacement \<lparr>kind = Line, start = (S, c1), finish = (E, c2)\<rparr> ns) =
      buffer_text (take (nat (S - 1)) ls @ ns' @ drop (nat E) ls)"
    using le
    by (simp add: replace_text_def replacement_def TextEdit_replace_def Range_create_def
        a b Let_def min_def max_def take_buffer_text drop_buffer_text buffer_text_append ns'(3))
  moreover have "\<forall>l \<in> set (take (nat (S - 1)) ls @ ns' @ drop (nat E) ls). LF \<notin> set l"
    using cl ns'(2) by (auto simp: clean_def dest: in_set_takeD in_set_dropD)
  ultimately show ?thesis
    using ns'(1) by (simp add: text_lines_buffer_text ns'_def)
qed

lemma region_text:
  assumes cl: "\<forall>l \<in> set ls. clean l"
    and L: "1 \<le> L" "L \<le> int (length ls)"
    and C: "1 \<le> Cs" "Cs - 1 \<le> Ce" "Ce \<le> int (length (ls ! nat (L - 1)))"
  shows "getText_range (buffer_text ls) (Range_create (L - 1) (Cs - 1) (L - 1) Ce) =
           take (nat Ce - nat (Cs - 1)) (drop (nat (Cs - 1)) (ls ! nat (L - 1)))"
proof -
  define k where "k = nat (L - 1)"
  from L have k: "k < length ls" "L - 1 = int k" by (simp_all add: k_def)
  define p where "p = length (buffer_text (take k ls))"
  from C have a: "offsetAt (buffer_text ls) \<lparr>line = int k, character = Cs - 1\<rparr> = p + nat (Cs - 1)"
    using offsetAt_in_line [OF cl k(1), of "Cs - 1"] by (simp add: p_def k_def)
  from C have b: "offsetAt (buffer_text ls) \<lparr>line = int k, character = Ce\<rparr> = p + nat Ce"
    using offsetAt_in_line [OF cl k(1), of Ce] by (simp add: p_def k_def)
  have "drop p (buffer_text ls) = buffer_text (drop k ls)"
    by (simp add: p_def drop_buffer_text)
  also have "\<dots> = ls ! k @ LF # buffer_text (drop (Suc k) ls)"
    using k(1) by (simp add: buffer_text_Cons flip: Cons_nth_drop_Suc)
  finally have "drop (p + nat (Cs - 1)) (buffer_text ls) =
      drop (nat (Cs - 1)) (ls ! k @ LF # buffer_text (drop (Suc k) ls))"
    by (metis add.commute drop_drop)
  moreover have "nat Ce \<le> length (ls ! k)" "nat (Cs - 1) \<le> nat Ce"
    using C by (simp_all add: k_def)
  ultimately show ?thesis
    unfolding getText_range_def Range_create_def k(2) using a b
    by (simp add: Let_def min_def max_def k_def)
qed

subsection \<open>What the steps of apply keep\<close>


lemma map_of_filter_keep:
  "(\<And>v. P (k, v)) \<Longrightarrow> map_of (filter P xs) k = map_of xs k"
  by (induction xs) auto

lemma buffer_lines_wipe_hidden:
  "b \<notin> set (wipe e) \<Longrightarrow> buffer_lines (wipe_hidden bs e) b = buffer_lines e b"
  by (simp add: buffer_lines_def wipe_hidden_def map_of_filter_keep)

lemma wipe_hidden_fields:
  "attached (wipe_hidden bs e) = attached e" "wipe (wipe_hidden bs e) = wipe e"
  "trace (wipe_hidden bs e) = trace e"
  by (simp_all add: wipe_hidden_def)

lemma edits_of_append: "edits_of (xs @ ys) = edits_of xs @ edits_of ys"
  by (induction xs rule: edits_of.induct) simp_all

lemma keeps_refl: "keeps b e e"
  by (simp add: keeps_def)

lemma keeps_trans: "keeps b e e' \<Longrightarrow> keeps b e' e'' \<Longrightarrow> keeps b e e''"
  by (simp add: keeps_def)

lemma keeps_Tabclose:
  assumes "b \<notin> set (wipe e)"
  shows "keeps b e (try_command Tabclose e)"
  using assms
  by (auto simp: keeps_def try_command_def nvim_command_def Let_def noted_def
      buffer_lines_wipe_hidden wipe_hidden_fields edits_of_append split: list.splits)
    (simp_all add: buffer_lines_def)

lemma keeps_win_gotoid: "keeps b e (call_win_gotoid i e)"
  by (simp add: keeps_def call_win_gotoid_def buffer_lines_def split: option.splits prod.splits)

lemma keeps_Buffer:
  assumes "b \<notin> set (wipe e)" "buffer_lines e n \<noteq> None"
  shows "\<exists>e'. nvim_command (Buffer n) e = Inr e' \<and> keeps b e e'"
  using assms
  by (auto simp: keeps_def nvim_command_def Let_def noted_def
      buffer_lines_wipe_hidden wipe_hidden_fields edits_of_append)
    (simp_all add: buffer_lines_def)

lemma keeps_breakUndoSequence: "keeps b e (breakUndoSequence e)"
  by (simp add: keeps_def breakUndoSequence_def noted_def buffer_lines_def edits_of_append)

lemma buffer_lines_update:
  "buffer_lines (e\<lparr>buffers := AList.update b ls (buffers e)\<rparr>) c =
     (if c = b then Some ls else buffer_lines e c)"
  by (simp add: buffer_lines_def update_conv')

lemma applyEdits_result:
  assumes "buffer_lines e b = Some ls"
  shows "buffer_lines (applyEdits b ed e) b = Some (text_lines (replace_text (buffer_text ls) ed))"
    and "edits_of (trace (applyEdits b ed e)) = edits_of (trace e) @ [(b, ed)]"
  using assms
  by (simp_all add: applyEdits_def noted_def edits_of_append)
    (simp add: buffer_lines_def update_conv')

lemma slice_from_drop: "0 \<le> k \<Longrightarrow> slice_from xs k = drop (nat k) xs"
  by (simp add: slice_from_def slice_def Let_def min_def)

lemma apply_edit_result:
  assumes t: "task t = Edit" "aiBufnr t \<noteq> - 1"
    and r: "originalRange t = Some r"
    and orig: "buffer_lines e (originalBufnr t) = Some ls"
      "originalBufnr t \<in> set (attached e)" "originalBufnr t \<notin> set (wipe e)"
  shows "\<exists>e'. apply_edit (t, e) = Inr (t\<lparr>aiBufnr := - 1, origTempBufnr := - 1\<rparr>, e') \<and>
           buffer_lines e' (originalBufnr t) =
             Some (text_lines (replace_text (buffer_text ls)
                    (replacement r (drop 3 (getBufferLines (aiBufnr t) e))))) \<and>
           edits_of (trace e') = edits_of (trace e) @
             [(originalBufnr t, replacement r (drop 3 (getBufferLines (aiBufnr t) e)))]"
proof -
  define b where "b = originalBufnr t"
  define ed where "ed = replacement r (drop 3 (getBufferLines (aiBufnr t) e))"
  define e1 where "e1 = try_command Tabclose e"
  have k1: "keeps b e e1"
    using orig(3) by (simp add: e1_def b_def keeps_Tabclose)
  have "\<exists>e2. (if call_bufwinid b e1 \<noteq> - 1 then Inr (call_win_gotoid (call_bufwinid b e1) e1)
               else nvim_command (Buffer b) e1) = Inr e2 \<and> keeps b e1 e2"
  proof (cases "call_bufwinid b e1 \<noteq> - 1")
    case True
    then show ?thesis by (simp add: keeps_win_gotoid)
  next
    case False
    from k1 orig have "b \<notin> set (wipe e1)" "buffer_lines e1 b \<noteq> None"
      by (simp_all add: keeps_def b_def)
    from keeps_Buffer [OF this] False show ?thesis by simp
  qed
  then obtain e2 where e2: "(if call_bufwinid b e1 \<noteq> - 1
      then Inr (call_win_gotoid (call_bufwinid b e1) e1)
      else nvim_command (Buffer b) e1) = Inr e2" and k2: "keeps b e1 e2"
    by blast
  define e3 where "e3 = breakUndoSequence e2"
  have k3: "keeps b e e3"
    using k1 k2 keeps_breakUndoSequence [of b e2]
    by (auto simp: e3_def intro: keeps_trans)
  then have e3: "buffer_lines e3 b = Some ls" "b \<in> set (attached e3)"
    "edits_of (trace e3) = edits_of (trace e)"
    using orig by (simp_all add: keeps_def b_def)
  then have doc: "getDocument b e3 = Some ls"
    by (simp add: getDocument_def)
  define e' where "e' = breakUndoSequence (applyEdits b ed e3)"
  have "apply_edit (t, e) = Inr (t\<lparr>aiBufnr := - 1, origTempBufnr := - 1\<rparr>, e')"
  proof (cases "call_bufwinid b e1 \<noteq> - 1")
    case True
    with e2 have "e2 = call_win_gotoid (call_bufwinid b e1) e1"
      by simp
    with t r True doc show ?thesis
      by (simp add: apply_edit_def close_def Let_def then_do_def INSTRUCTIONS_def
          slice_from_drop e'_def e3_def e1_def b_def ed_def)
  next
    case False
    with e2 have "nvim_command (Buffer b) e1 = Inr e2"
      by simp
    with t r False doc show ?thesis
      by (simp add: apply_edit_def close_def Let_def then_do_def INSTRUCTIONS_def
          slice_from_drop e'_def e3_def e1_def b_def ed_def)
  qed
  moreover have "buffer_lines e' b = Some (text_lines (replace_text (buffer_text ls) ed))"
    "edits_of (trace e') = edits_of (trace e) @ [(b, ed)]"
    using applyEdits_result [OF e3(1), of ed] e3(3)
      keeps_breakUndoSequence [of b "applyEdits b ed e3"]
    by (simp_all add: e'_def keeps_def)
  ultimately show ?thesis
    by (auto simp: b_def ed_def)
qed

lemma getBufferLines_view:
  "buffer_lines e b = Some (INSTRUCTIONS @ ns) \<Longrightarrow> drop 3 (getBufferLines b e) = ns"
  by (simp add: getBufferLines_def INSTRUCTIONS_def)

subsection \<open>A session\<close>

text \<open>From the editor with the scratch tab page, \<^verbatim>\<open>run\<close> with the selection \<open>old\<close>, the
  prompt \<open>fix\<close> and a line-wise range on line 5 leads to the task and the editor with the
  diff view, once the two chunks have arrived.\<close>


lemmas editor_defs = nvim_command_def noted_def call_bufnr_def call_line_def call_getline_def
  line_count_def wipe_hidden_def displayed_def all_tabs_def windows_of_def call_bufwinid_def
  call_win_gotoid_def focus_window_def setBufferLines_def getBufferLines_def moveToLineEnd_def
  scroll_tab_def to_last_line_def breakUndoSequence_def then_do_def try_command_def
  call_setbufline_def call_appendbufline_def buffer_lines_def

lemma setup_example:
  "setupDiffView ''old'' (diff_task\<lparr>aiBufnr := - 1, origTempBufnr := - 1\<rparr>, scratch_tab_editor) =
     Inr (diff_task, opened_editor)"
  by (simp add: setupDiffView_def editor_defs scratch_tab_editor_def example_editor_def
      diff_task_def opened_editor_def INSTRUCTIONS_def split_lines_def LF_def CR_def)

lemma chunks_example:
  "on_chunk (Content ''w'')
     (on_chunk (Content ''ne'') ([], [], diff_task, noted g opened_editor)) =
   ([], ''new'', diff_task,
    diff_editor\<lparr>trace := trace opened_editor @ [g, Command Redraw, Command Redraw]\<rparr>)"
  by (simp add: on_chunk_def Let_def editor_defs diff_task_def opened_editor_def diff_editor_def
      INSTRUCTIONS_def split_lines_def LF_def CR_def)

lemma run_example:
  "run plain_role no_options [Content ''ne'', Content ''w''] None ''old'' ''fix''
     (Some line_range) (new_AIEdit Edit example_config, scratch_tab_editor) =
   Inr (diff_task, diff_editor)"
proof -
  have start: "(new_AIEdit Edit example_config)\<lparr>bufnr := call_bufnr scratch_tab_editor,
      originalBufnr := call_bufnr scratch_tab_editor, originalRange := Some line_range\<rparr> =
      diff_task\<lparr>aiBufnr := - 1, origTempBufnr := - 1\<rparr>"
    by (simp add: new_AIEdit_def diff_task_def call_bufnr_def scratch_tab_editor_def
        example_editor_def)
  have edit: "task diff_task = Edit" "task (new_AIEdit Edit example_config) = Edit"
    by (simp_all add: diff_task_def new_AIEdit_def)
  show ?thesis
    unfolding run_def Let_def
    by (simp add: plain_role_def no_options_def then_do_def start setup_example
        chunks_example edit)
      (simp add: diff_editor_def example_request_def example_config_def)
qed

lemma diff_state:
  "task diff_task = Edit" "aiBufnr diff_task = 8" "originalBufnr diff_task = 1"
  "originalRange diff_task = Some line_range"
  "buffer_lines diff_editor 8 = Some (INSTRUCTIONS @ [''new''])"
  "buffer_lines diff_editor 1 = Some [''one'', ''abcdefg'', ''three'', ''four'', ''old'', ''six'']"
  "attached diff_editor = [1, 7]" "wipe diff_editor = [9, 8, 7]"
  "edits_of (trace diff_editor) = []"
  by (simp_all add: diff_task_def diff_editor_def opened_editor_def buffer_lines_def)

lemma clean_examples:
  "clean ''one''" "clean ''abcdefg''" "clean ''three''" "clean ''four''" "clean ''old''"
  "clean ''six''" "clean ''new''"
  by (simp_all add: clean_def LF_def CR_def)

subsection \<open>apply\<close>

text \<open>
  Claim C2.  For an edit task with an open view whose stored range is line-wise, from
  line \<open>S\<close> to line \<open>E\<close> (1-based, inclusive), whose view holds the fixed header followed
  by the new lines \<open>ns\<close>, and whose original buffer is attached and stays when the tab
  page closes: \<^verbatim>\<open>apply\<close> succeeds, closes the view, and applies exactly one edit to the
  original buffer, which replaces the region from \<open>(S - 1, 0)\<close> to \<open>(E, 0)\<close> by the new
  lines joined by line feeds plus one trailing line feed.  When the lines hold no line
  breaks and \<open>S \<le> E\<close> are lines of the buffer, the buffer afterwards is its lines before
  \<open>S\<close>, the new lines (one empty line when there are none) and its lines after \<open>E\<close>; for
  one line replaced by one line this is the buffer with that line updated, so the number
  of lines is unchanged.
\<close>

theorem apply_line_wise:
  assumes t: "task t = Edit" "aiBufnr t \<noteq> - 1"
    and r: "originalRange t = Some \<lparr>kind = Line, start = (S, c1), finish = (E, c2)\<rparr>"
    and based: "1 \<le> S" "1 \<le> E"
    and view: "buffer_lines e (aiBufnr t) = Some (INSTRUCTIONS @ ns)"
    and orig: "buffer_lines e (originalBufnr t) = Some ls"
      "originalBufnr t \<in> set (attached e)" "originalBufnr t \<notin> set (wipe e)"
  shows "\<exists>e'. apply_edit (t, e) = Inr (t\<lparr>aiBufnr := - 1, origTempBufnr := - 1\<rparr>, e') \<and>
           edits_of (trace e') = edits_of (trace e) @
             [(originalBufnr t,
               TextEdit_replace (Range_create (S - 1) 0 E 0) (join_lf ns @ [LF]))] \<and>
           ((\<forall>l \<in> set ls. clean l) \<and> (\<forall>l \<in> set ns. clean l) \<and> S \<le> E \<and> E \<le> int (length ls) \<longrightarrow>
              buffer_lines e' (originalBufnr t) =
                Some (take (nat (S - 1)) ls @ (if ns = [] then [[]] else ns) @ drop (nat E) ls) \<and>
              (\<forall>n. S = E \<and> ns = [n] \<longrightarrow>
                 buffer_lines e' (originalBufnr t) = Some (ls[nat (S - 1) := n])))"
proof -
  let ?r = "\<lparr>kind = Line, start = (S, c1), finish = (E, c2)\<rparr>"
  from apply_edit_result [OF t r orig] getBufferLines_view [OF view]
  obtain e' where e': "apply_edit (t, e) = Inr (t\<lparr>aiBufnr := - 1, origTempBufnr := - 1\<rparr>, e')"
    "buffer_lines e' (originalBufnr t) =
       Some (text_lines (replace_text (buffer_text ls) (replacement ?r ns)))"
    "edits_of (trace e') = edits_of (trace e) @ [(originalBufnr t, replacement ?r ns)]"
    by auto
  have ed: "replacement ?r ns =
      TextEdit_replace (Range_create (S - 1) 0 E 0) (join_lf ns @ [LF])"
    by (simp add: replacement_def)
  have lines: "buffer_lines e' (originalBufnr t) =
      Some (take (nat (S - 1)) ls @ (if ns = [] then [[]] else ns) @ drop (nat E) ls)"
    if "\<forall>l \<in> set ls. clean l" "\<forall>l \<in> set ns. clean l" "S \<le> E" "E \<le> int (length ls)"
    using e'(2) replace_lines [OF that(1,2) based(1) that(3,4), of c1 c2] by simp
  have one: "take (nat (S - 1)) ls @ [n] @ drop (nat S) ls = ls[nat (S - 1) := n]"
    if "S \<le> int (length ls)" for n
  proof -
    from based that have "nat (S - 1) < length ls" "nat S = Suc (nat (S - 1))"
      by simp_all
    then show ?thesis
      by (simp add: upd_conv_take_nth_drop)
  qed
  from e'(1,3) lines one show ?thesis
    by (auto simp: ed)
qed

text \<open>The range \<open>start = [5, 1]\<close>, \<open>end = [5, 1]\<close> with line 5 \<open>old\<close> and the new line
  \<open>new\<close>: the region is \<open>(4, 0)\<close> to \<open>(5, 0)\<close>, the text is \<open>new\<close> and a line feed, and
  the six lines of the buffer are as before except for the fifth.\<close>

theorem apply_line_wise_witness:
  "\<exists>e'. apply_edit (diff_task, diff_editor) =
          Inr (diff_task\<lparr>aiBufnr := - 1, origTempBufnr := - 1\<rparr>, e') \<and>
        edits_of (trace e') =
          [(1, TextEdit_replace (Range_create 4 0 5 0) (''new'' @ [LF]))] \<and>
        buffer_lines diff_editor 1 =
          Some [''one'', ''abcdefg'', ''three'', ''four'', ''old'', ''six''] \<and>
        buffer_lines e' 1 = Some [''one'', ''abcdefg'', ''three'', ''four'', ''new'', ''six'']"
  using apply_line_wise [of diff_task 5 1 5 1 diff_editor "[''new'']"
      "[''one'', ''abcdefg'', ''three'', ''four'', ''old'', ''six'']"]
  by (simp add: diff_state line_range_def clean_examples)

text \<open>
  Claim C1.  For an edit task with an open view whose stored range is character-wise,
  from \<open>(Ls, Cs)\<close> to \<open>(Le, Ce)\<close> (1-based, end inclusive), under the same conditions:
  \<^verbatim>\<open>apply\<close> succeeds and applies exactly one edit to the original buffer, which replaces
  the region from \<open>(Ls - 1, Cs - 1)\<close> to \<open>(Le - 1, Ce)\<close>, the end column taken as it is, by
  the new lines joined by line feeds.  Within one line of the buffer the text of that
  region is the characters at the columns \<open>Cs\<close> to \<open>Ce\<close> of the line, both included.
\<close>

theorem apply_char_wise:
  assumes t: "task t = Edit" "aiBufnr t \<noteq> - 1"
    and r: "originalRange t = Some \<lparr>kind = Visual, start = (Ls, Cs), finish = (Le, Ce)\<rparr>"
    and based: "1 \<le> Ls" "1 \<le> Cs" "1 \<le> Le" "1 \<le> Ce"
    and view: "buffer_lines e (aiBufnr t) = Some (INSTRUCTIONS @ ns)"
    and orig: "buffer_lines e (originalBufnr t) = Some ls"
      "originalBufnr t \<in> set (attached e)" "originalBufnr t \<notin> set (wipe e)"
  shows "\<exists>e'. apply_edit (t, e) = Inr (t\<lparr>aiBufnr := - 1, origTempBufnr := - 1\<rparr>, e') \<and>
           edits_of (trace e') = edits_of (trace e) @
             [(originalBufnr t,
               TextEdit_replace (Range_create (Ls - 1) (Cs - 1) (Le - 1) Ce) (join_lf ns))] \<and>
           buffer_lines e' (originalBufnr t) =
             Some (text_lines (replace_text (buffer_text ls)
               (TextEdit_replace (Range_create (Ls - 1) (Cs - 1) (Le - 1) Ce) (join_lf ns)))) \<and>
           ((\<forall>l \<in> set ls. clean l) \<and> Ls = Le \<and> Ls \<le> int (length ls) \<and> Cs - 1 \<le> Ce \<and>
            Ce \<le> int (length (ls ! nat (Ls - 1))) \<longrightarrow>
              getText_range (buffer_text ls) (Range_create (Ls - 1) (Cs - 1) (Le - 1) Ce) =
                take (nat Ce - nat (Cs - 1)) (drop (nat (Cs - 1)) (ls ! nat (Ls - 1))))"
proof -
  let ?r = "\<lparr>kind = Visual, start = (Ls, Cs), finish = (Le, Ce)\<rparr>"
  from apply_edit_result [OF t r orig] getBufferLines_view [OF view]
  obtain e' where e': "apply_edit (t, e) = Inr (t\<lparr>aiBufnr := - 1, origTempBufnr := - 1\<rparr>, e')"
    "buffer_lines e' (originalBufnr t) =
       Some (text_lines (replace_text (buffer_text ls) (replacement ?r ns)))"
    "edits_of (trace e') = edits_of (trace e) @ [(originalBufnr t, replacement ?r ns)]"
    by auto
  have ed: "replacement ?r ns =
      TextEdit_replace (Range_create (Ls - 1) (Cs - 1) (Le - 1) Ce) (join_lf ns)"
    by (simp add: replacement_def)
  have sub: "getText_range (buffer_text ls) (Range_create (Ls - 1) (Cs - 1) (Le - 1) Ce) =
      take (nat Ce - nat (Cs - 1)) (drop (nat (Cs - 1)) (ls ! nat (Ls - 1)))"
    if "\<forall>l \<in> set ls. clean l" "Ls = Le" "Ls \<le> int (length ls)" "Cs - 1 \<le> Ce"
      "Ce \<le> int (length (ls ! nat (Ls - 1)))"
    using region_text [OF that(1) based(1) that(3) based(2) that(4,5)] that(2) by simp
  from e' sub show ?thesis
    by (auto simp: ed)
qed

text \<open>The range \<open>start = [2, 3]\<close>, \<open>end = [2, 5]\<close> on the line \<open>abcdefg\<close>: the region is
  \<open>(1, 2)\<close> to \<open>(1, 5)\<close>, its text is \<open>cde\<close>, and with the new line \<open>new\<close> the line
  becomes \<open>abnewfg\<close>.\<close>

theorem apply_char_wise_witness:
  "\<exists>e'. apply_edit (diff_task\<lparr>originalRange := Some char_range\<rparr>, diff_editor) =
          Inr (diff_task\<lparr>originalRange := Some char_range, aiBufnr := - 1,
                 origTempBufnr := - 1\<rparr>, e') \<and>
        edits_of (trace e') = [(1, TextEdit_replace (Range_create 1 2 1 5) ''new'')] \<and>
        buffer_lines e' 1 = Some [''one'', ''abnewfg'', ''three'', ''four'', ''old'', ''six''] \<and>
        getText_range
          (buffer_text [''one'', ''abcdefg'', ''three'', ''four'', ''old'', ''six''])
          (Range_create 1 2 1 5) = ''cde''"
proof -
  have lines: "text_lines (replace_text
      (buffer_text [''one'', ''abcdefg'', ''three'', ''four'', ''old'', ''six''])
      (TextEdit_replace (Range_create 1 2 1 5) ''new'')) =
      [''one'', ''abnewfg'', ''three'', ''four'', ''old'', ''six'']"
    by (simp add: text_lines_def replace_text_def buffer_text_def TextEdit_replace_def
        Range_create_def offsetAt_def getLineOffsets_def ensureBeforeEOL.simps isEOL_def
        split_lf_def LF_def CR_def)
  from apply_char_wise [of "diff_task\<lparr>originalRange := Some char_range\<rparr>" 2 3 2 5
      diff_editor "[''new'']" "[''one'', ''abcdefg'', ''three'', ''four'', ''old'', ''six'']"]
  show ?thesis
    by (simp add: diff_state char_range_def clean_examples lines)
qed

subsection \<open>run\<close>

text \<open>
  Claim C9.  \<^verbatim>\<open>run\<close> on an edit task without a range returns at once: the editor is
  unchanged, so no view was created, no request was recorded and no buffer was written,
  and of the task only the field \<^verbatim>\<open>bufnr\<close> was set; this holds whatever the role
  parser and the stream would have done.
\<close>

theorem run_without_range:
  assumes "task t = Edit"
  shows "run parseTaskRole mergeOptions chunks stream_end selection rawPrompt None (t, e) =
           Inr (t\<lparr>bufnr := call_bufnr e\<rparr>, e)"
  using assms by (simp add: run_def)

theorem run_without_range_witness:
  "task (new_AIEdit Edit example_config) = Edit \<and>
   run plain_role no_options [Content ''ne'', Content ''w''] None ''old'' ''fix'' None
     (new_AIEdit Edit example_config, example_editor) =
     Inr ((new_AIEdit Edit example_config)\<lparr>bufnr := 1\<rparr>, example_editor)"
  using run_without_range [of "new_AIEdit Edit example_config" plain_role no_options
      "[Content ''ne'', Content ''w'']" None "''old''" "''fix''" example_editor]
  by (simp add: new_AIEdit_def call_bufnr_def example_editor_def)

text \<open>The lines of a well-broken text.\<close>

lemma split_from_no_break:
  "LF \<notin> set l \<Longrightarrow> split_from cur l = [cur @ l]"
  by (induction cur l rule: split_from.induct) auto

lemma split_from_LF:
  assumes "LF \<notin> set l" "l = [] \<or> last l \<noteq> CR"
  shows "split_from cur (l @ LF # s) = (cur @ l) # split_from [] s"
  using assms
proof (induction l arbitrary: cur)
  case Nil
  then show ?case by (cases s) simp_all
next
  case (Cons c l)
  then have c: "c \<noteq> LF" and l: "LF \<notin> set l" "l = [] \<or> last l \<noteq> CR"
    by (auto split: if_splits)
  obtain d ds where d: "l @ LF # s = d # ds"
    by (cases "l @ LF # s") simp_all
  have "\<not> (c = CR \<and> d = LF)"
    using Cons.prems d by (cases l) auto
  with c have "split_from cur ((c # l) @ LF # s) = split_from (cur @ [c]) (l @ LF # s)"
    by (auto simp: d)
  with Cons.IH [OF l, of "cur @ [c]"] show ?case
    by simp
qed

lemma split_from_CRLF:
  assumes "LF \<notin> set l"
  shows "split_from cur (l @ CR # LF # s) = (cur @ l) # split_from [] s"
  using assms
proof (induction l arbitrary: cur)
  case Nil
  then show ?case by simp
next
  case (Cons c l)
  then have c: "c \<noteq> LF" and l: "LF \<notin> set l"
    by auto
  obtain d ds where d: "l @ CR # LF # s = d # ds"
    by (cases "l @ CR # LF # s") simp_all
  have "d \<noteq> LF"
    using l d by (cases l) auto
  with c have "split_from cur ((c # l) @ CR # LF # s) = split_from (cur @ [c]) (l @ CR # LF # s)"
    by (simp add: d)
  with Cons.IH [OF l, of "cur @ [c]"] show ?case
    by simp
qed

lemma split_lines_join_breaks:
  "well_broken l rest \<Longrightarrow> split_lines (join_breaks l rest) = l # map snd rest"
proof (induction l rest rule: join_breaks.induct)
  case (1 l)
  then show ?case
    by (simp add: split_lines_def split_from_no_break)
next
  case (2 l crlf m rest)
  then have l: "LF \<notin> set l" "crlf \<or> l = [] \<or> last l \<noteq> CR"
    and rest: "split_from [] (join_breaks m rest) = m # map snd rest"
    by (simp_all add: split_lines_def)
  show ?case
  proof (cases crlf)
    case True
    with split_from_CRLF [OF l(1), of "[]" "join_breaks m rest"] rest show ?thesis
      by (simp add: split_lines_def)
  next
    case False
    with l(2) have "l = [] \<or> last l \<noteq> CR"
      by simp
    from split_from_LF [OF l(1) this, of "[]" "join_breaks m rest"] rest False show ?thesis
      by (simp add: split_lines_def)
  qed
qed

text \<open>Every text is well broken in some way.\<close>

lemma well_broken_exists_from:
  assumes "LF \<notin> set cur" "cur = [] \<or> last cur \<noteq> CR \<or> s = [] \<or> hd s \<noteq> LF"
  shows "\<exists>l rest. cur @ s = join_breaks l rest \<and> well_broken l rest"
  using assms
proof (induction cur s rule: split_from.induct)
  case (1 cur)
  then show ?case by (intro exI [of _ cur] exI [of _ "[]"]) simp
next
  case (2 cur c)
  show ?case
  proof (cases "c = LF")
    case True
    with 2 show ?thesis
      by (intro exI [of _ cur] exI [of _ "[(False, [])]"]) auto
  next
    case False
    with 2 show ?thesis
      by (intro exI [of _ "cur @ [c]"] exI [of _ "[]"]) auto
  qed
next
  case (3 cur c d cs)
  show ?case
  proof (cases "c = LF")
    case True
    from "3.IH"(1) [OF True] obtain l rest where "[] @ d # cs = join_breaks l rest"
      "well_broken l rest"
      by auto
    with True 3 show ?thesis
      by (intro exI [of _ cur] exI [of _ "(False, l) # rest"]) auto
  next
    case False
    show ?thesis
    proof (cases "c = CR \<and> d = LF")
      case True
      from "3.IH"(2) [OF False True] obtain l rest where "[] @ cs = join_breaks l rest"
        "well_broken l rest"
        by auto
      with True 3 show ?thesis
        by (intro exI [of _ cur] exI [of _ "(True, l) # rest"]) auto
    next
      case nb: False
      with False "3.prems" have "LF \<notin> set (cur @ [c])"
        "cur @ [c] = [] \<or> last (cur @ [c]) \<noteq> CR \<or> d # cs = [] \<or> hd (d # cs) \<noteq> LF"
        by auto
      from "3.IH"(3) [OF False nb this] show ?thesis
        by simp
    qed
  qed
qed

lemma well_broken_exists: "\<exists>l rest. s = join_breaks l rest \<and> well_broken l rest"
  using well_broken_exists_from [of "[]" s] by simp


text \<open>The steps of an edit task on one chunk, and on a list of chunks.\<close>

lemma all_windows_moveToLineEnd:
  "all_windows (moveToLineEnd b e) = map (to_last_line e b) (all_windows e)"
  by (simp add: all_windows_def moveToLineEnd_def all_tabs_def windows_of_def scroll_tab_def
      map_concat comp_def)

lemma buffer_lines_setBufferLines:
  "buffer_lines (setBufferLines b ls e) c =
     (if c = b \<and> buffer_lines e b \<noteq> None then Some ls else buffer_lines e c)"
  by (auto simp: setBufferLines_def buffer_lines_update)

lemma on_chunk_content_edit:
  assumes "task t = Edit"
  shows "on_chunk (Content c) (rb, acc, t, e) =
           (rb, acc @ c, t,
            noted (Command Redraw)
              (moveToLineEnd (aiBufnr t)
                 (setBufferLines (aiBufnr t) (INSTRUCTIONS @ split_lines (acc @ c)) e)))"
  using assms by (simp add: on_chunk_def Let_def try_command_def nvim_command_def)

lemma on_chunk_reasoning_edit:
  assumes "task t = Edit"
  shows "on_chunk (Reasoning_content c) (rb, acc, t, e) =
           (rb @ map (\<lambda>x. if x = LF then CHR '' '' else x) c, acc, t, e)"
  using assms by (simp add: on_chunk_def Let_def)

lemma view_lines:
  "buffer_lines (noted (Command Redraw) (moveToLineEnd b (setBufferLines b ls e))) c =
     (if c = b \<and> buffer_lines e b \<noteq> None then Some ls else buffer_lines e c)"
proof -
  have "buffer_lines (noted (Command Redraw) (moveToLineEnd b (setBufferLines b ls e))) c =
      buffer_lines (setBufferLines b ls e) c"
    by (simp add: noted_def moveToLineEnd_def buffer_lines_def)
  then show ?thesis
    by (simp only: buffer_lines_setBufferLines)
qed

lemma view_cursor:
  assumes "buffer_lines e b \<noteq> None"
    and "w \<in> set (all_windows (noted (Command Redraw)
           (moveToLineEnd b (setBufferLines b ls e))))"
    and "winbuf w = b"
  shows "cursor w = int (length ls)"
proof -
  have count: "line_count (setBufferLines b ls e) b = int (length ls)"
    using assms(1) by (simp add: line_count_def buffer_lines_setBufferLines)
  have "all_windows (noted (Command Redraw) (moveToLineEnd b (setBufferLines b ls e))) =
      all_windows (moveToLineEnd b (setBufferLines b ls e))"
    by (simp add: noted_def all_windows_def all_tabs_def)
  also have "\<dots> = map (to_last_line (setBufferLines b ls e) b)
      (all_windows (setBufferLines b ls e))"
    by (rule all_windows_moveToLineEnd)
  finally obtain v where "w = to_last_line (setBufferLines b ls e) b v"
    using assms(2) by auto
  with assms(3) count show ?thesis
    by (simp add: to_last_line_def split: if_splits)
qed

lemma fold_on_chunk_edit:
  assumes "task t = Edit" "buffer_lines e (aiBufnr t) \<noteq> None"
  shows "\<exists>rb' e'. fold on_chunk cs (rb, acc, t, e) = (rb', acc @ contents_text cs, t, e') \<and>
           buffer_lines e' (aiBufnr t) \<noteq> None \<and>
           (\<forall>b. b \<noteq> aiBufnr t \<longrightarrow> buffer_lines e' b = buffer_lines e b)"
  using assms(2)
proof (induction cs arbitrary: rb acc e)
  case Nil
  then show ?case by simp
next
  case (Cons x cs)
  show ?case
  proof (cases x)
    case (Content c)
    define e1 where "e1 = noted (Command Redraw) (moveToLineEnd (aiBufnr t)
      (setBufferLines (aiBufnr t) (INSTRUCTIONS @ split_lines (acc @ c)) e))"
    from Cons.prems
    have e1: "buffer_lines e1 (aiBufnr t) \<noteq> None"
      "\<And>b. b \<noteq> aiBufnr t \<Longrightarrow> buffer_lines e1 b = buffer_lines e b"
      by (simp_all add: e1_def view_lines)
    from Cons.IH [OF e1(1), of rb "acc @ c"] e1(2) Content show ?thesis
      by (auto simp: on_chunk_content_edit [OF assms(1)] e1_def [symmetric])
  next
    case (Reasoning_content c)
    with Cons.IH [OF Cons.prems] show ?thesis
      by (simp add: on_chunk_reasoning_edit [OF assms(1)])
  qed
qed

text \<open>
  Claim C6.  For an edit task whose output view exists, after any chunks \<open>cs\<close> and a
  content chunk \<open>c\<close>: the accumulated text is the text before followed by the content
  of \<open>cs\<close> and \<open>c\<close>; the output view holds the fixed header followed by the lines of
  the whole accumulated text, whatever it held before.  These lines are pinned down: the
  accumulated text is, in some way, lines joined by line breaks (a line feed, with or
  without a carriage return before it), and in whatever way it is well broken into a
  first line and further lines, the view holds the header followed by exactly these
  lines, and every window on the view has its cursor on the last of them.  No other
  buffer has changed.
\<close>

theorem edit_chunk_rewrites_view:
  assumes edit: "task t = Edit"
    and view: "buffer_lines e (aiBufnr t) = Some old"
    and res: "fold on_chunk (cs @ [Content c]) (rb, acc, t, e) = (rb', acc', t', e')"
  shows "acc' = acc @ contents_text cs @ c \<and> t' = t \<and>
         buffer_lines e' (aiBufnr t) = Some (INSTRUCTIONS @ split_lines acc') \<and>
         (\<exists>l rest. acc' = join_breaks l rest \<and> well_broken l rest) \<and>
         (\<forall>l rest. acc' = join_breaks l rest \<and> well_broken l rest \<longrightarrow>
            buffer_lines e' (aiBufnr t) = Some (INSTRUCTIONS @ l # map snd rest) \<and>
            (\<forall>w \<in> set (all_windows e'). winbuf w = aiBufnr t \<longrightarrow>
               cursor w = int (length INSTRUCTIONS) + 1 + int (length rest))) \<and>
         (\<forall>b. b \<noteq> aiBufnr t \<longrightarrow> buffer_lines e' b = buffer_lines e b) \<and>
         (\<forall>w \<in> set (all_windows e'). winbuf w = aiBufnr t \<longrightarrow>
            cursor w = int (length (INSTRUCTIONS @ split_lines acc')))"
proof -
  from view have "buffer_lines e (aiBufnr t) \<noteq> None" by simp
  from fold_on_chunk_edit [OF edit this, of cs rb acc]
  obtain rb1 e1 where e1: "fold on_chunk cs (rb, acc, t, e) = (rb1, acc @ contents_text cs, t, e1)"
    "buffer_lines e1 (aiBufnr t) \<noteq> None"
    "\<And>b. b \<noteq> aiBufnr t \<Longrightarrow> buffer_lines e1 b = buffer_lines e b"
    by blast
  define new where "new = INSTRUCTIONS @ split_lines ((acc @ contents_text cs) @ c)"
  from res e1(1) have "on_chunk (Content c) (rb1, acc @ contents_text cs, t, e1) =
      (rb', acc', t', e')"
    by simp
  then have out: "acc' = (acc @ contents_text cs) @ c" "t' = t"
    "e' = noted (Command Redraw) (moveToLineEnd (aiBufnr t) (setBufferLines (aiBufnr t) new e1))"
    unfolding on_chunk_content_edit [OF edit] new_def by auto
  have new: "new = INSTRUCTIONS @ split_lines acc'"
    by (simp add: new_def out(1))
  from e1(2,3)
  have lines: "buffer_lines e' (aiBufnr t) = Some new"
    and others: "\<And>b. b \<noteq> aiBufnr t \<Longrightarrow> buffer_lines e' b = buffer_lines e b"
    unfolding out(3) by (simp_all add: view_lines)
  have cursors: "cursor w = int (length new)"
    if "w \<in> set (all_windows e')" "winbuf w = aiBufnr t" for w
    using view_cursor [OF e1(2) that(1) [unfolded out(3)] that(2)] .
  have broken: "new = INSTRUCTIONS @ l # map snd rest"
    if "acc' = join_breaks l rest" "well_broken l rest" for l rest
    using split_lines_join_breaks [OF that(2)] that(1) by (simp add: new)
  have "\<exists>l rest. acc' = join_breaks l rest \<and> well_broken l rest"
    by (rule well_broken_exists)
  moreover have "buffer_lines e' (aiBufnr t) = Some (INSTRUCTIONS @ l # map snd rest) \<and>
      (\<forall>w \<in> set (all_windows e'). winbuf w = aiBufnr t \<longrightarrow>
         cursor w = int (length INSTRUCTIONS) + 1 + int (length rest))"
    if "acc' = join_breaks l rest" "well_broken l rest" for l rest
    using lines cursors broken [OF that] by auto
  ultimately show ?thesis
    using out(1,2) lines others cursors unfolding new by simp
qed

text \<open>The chunks \<open>fo\<close>, \<open>o\<close> with a carriage return, and a line feed with \<open>bar\<close> and
  a line feed, on the view just set up: the break lies across two chunks, and the view
  shows the header and the lines \<open>foo\<close>, \<open>bar\<close> and an empty line, with its window on
  line 6.\<close>

theorem edit_chunk_rewrites_view_witness:
  "task diff_task = Edit \<and>
   buffer_lines opened_editor (aiBufnr diff_task) = Some INSTRUCTIONS \<and>
   fold on_chunk ([Content ''fo'', Content (''o'' @ [CR])] @ [Content (LF # ''bar'' @ [LF])])
     ([], [], diff_task, opened_editor) =
     ([], ''foo'' @ [CR, LF] @ ''bar'' @ [LF], diff_task, split_editor) \<and>
   ''foo'' @ [CR, LF] @ ''bar'' @ [LF] = join_breaks ''foo'' [(True, ''bar''), (False, [])] \<and>
   well_broken ''foo'' [(True, ''bar''), (False, [])] \<and>
   buffer_lines split_editor 8 =
     Some [''# AI Edit: <Enter> Apply, q Cancel'',
           ''# --------------------------------------------------'', [],
           ''foo'', ''bar'', []] \<and>
   buffer_lines split_editor 1 = buffer_lines opened_editor 1 \<and>
   filter (\<lambda>w. winbuf w = 8) (all_windows split_editor) =
     [\<lparr>winid = 1002, winbuf = 8, cursor = 6\<rparr>]"
proof -
  have res: "fold on_chunk ([Content ''fo'', Content (''o'' @ [CR])] @
      [Content (LF # ''bar'' @ [LF])]) ([], [], diff_task, opened_editor) =
      ([], ''foo'' @ [CR, LF] @ ''bar'' @ [LF], diff_task, split_editor)"
    by (simp add: on_chunk_def Let_def editor_defs diff_task_def opened_editor_def
        split_editor_def INSTRUCTIONS_def split_lines_def LF_def CR_def)
  have view: "buffer_lines opened_editor (aiBufnr diff_task) = Some INSTRUCTIONS"
    by (simp add: buffer_lines_def opened_editor_def diff_task_def)
  have joined: "''foo'' @ [CR, LF] @ ''bar'' @ [LF] =
      join_breaks ''foo'' [(True, ''bar''), (False, [])]"
    and wb: "well_broken ''foo'' [(True, ''bar''), (False, [])]"
    by (simp_all add: LF_def CR_def)
  have windows: "all_windows split_editor =
      [\<lparr>winid = 1000, winbuf = 1, cursor = 5\<rparr>, \<lparr>winid = 1002, winbuf = 8, cursor = 6\<rparr>,
       \<lparr>winid = 1003, winbuf = 9, cursor = 1\<rparr>, \<lparr>winid = 1001, winbuf = 7, cursor = 1\<rparr>]"
    by (simp add: all_windows_def all_tabs_def windows_of_def split_editor_def opened_editor_def)
  note shown = edit_chunk_rewrites_view [OF diff_state(1) view res]
  from shown joined wb have "buffer_lines split_editor (aiBufnr diff_task) =
      Some (INSTRUCTIONS @ ''foo'' # map snd [(True, ''bar''), (False, [])])"
    by blast
  then have new: "buffer_lines split_editor 8 =
     Some [''# AI Edit: <Enter> Apply, q Cancel'',
           ''# --------------------------------------------------'', [],
           ''foo'', ''bar'', []]"
    by (simp add: diff_state(2) INSTRUCTIONS_def)
  from shown have "\<forall>b. b \<noteq> aiBufnr diff_task \<longrightarrow> buffer_lines split_editor b =
      buffer_lines opened_editor b"
    by blast
  then have other: "buffer_lines split_editor 1 = buffer_lines opened_editor 1"
    by (simp add: diff_state(2))
  from view new other res joined wb show ?thesis
    by (simp add: diff_state(1) windows)
qed

subsection \<open>close\<close>

text \<open>
  Claim C8.  The session above, with the diff view in the second of three tab pages and
  a scratch buffer in the third.  The first \<^verbatim>\<open>close\<close> closes the tab page of the diff
  view; its two buffers go, buffers 1 and 7 stay, and the tab page of the scratch buffer
  becomes current.  The second \<^verbatim>\<open>close\<close> leaves the task as it is but runs
  \<^verbatim>\<open>tabclose\<close> again: the tab page of the scratch buffer closes and buffer 7 is wiped.
  The second call is not without effect.
\<close>

theorem close_twice_closes_another_tab:
  "run plain_role no_options [Content ''ne'', Content ''w''] None ''old'' ''fix''
     (Some line_range) (new_AIEdit Edit example_config, scratch_tab_editor) =
     Inr (diff_task, diff_editor) \<and>
   map (map winbuf \<circ> windows_of) (all_tabs diff_editor) = [[1], [8, 9], [7]] \<and>
   map (map winbuf \<circ> windows_of) (all_tabs (snd (close (diff_task, diff_editor)))) =
     [[1], [7]] \<and>
   map fst (buffers (snd (close (diff_task, diff_editor)))) = [1, 7] \<and>
   buffer_lines (snd (close (diff_task, diff_editor))) 1 = buffer_lines diff_editor 1 \<and>
   fst (close (diff_task, diff_editor)) = diff_task\<lparr>aiBufnr := - 1, origTempBufnr := - 1\<rparr> \<and>
   fst (close (close (diff_task, diff_editor))) = fst (close (diff_task, diff_editor)) \<and>
   map (map winbuf \<circ> windows_of)
     (all_tabs (snd (close (close (diff_task, diff_editor))))) = [[1]] \<and>
   map fst (buffers (snd (close (close (diff_task, diff_editor))))) = [1] \<and>
   close (close (diff_task, diff_editor)) \<noteq> close (diff_task, diff_editor)"
proof -
  let ?t1 = "diff_task\<lparr>aiBufnr := - 1, origTempBufnr := - 1\<rparr>"
  let ?e1 = "diff_editor
      \<lparr>tab_cur := \<lparr>wins_left = [], win_cur = \<lparr>winid = 1001, winbuf = 7, cursor = 1\<rparr>,
                   wins_right = []\<rparr>,
       tabs_right := [],
       buffers := [(1, [''one'', ''abcdefg'', ''three'', ''four'', ''old'', ''six'']),
                   (7, [''notes''])],
       trace := trace diff_editor @ [Command Tabclose]\<rparr>"
  let ?e2 = "diff_editor
      \<lparr>tabs_left := [],
       tab_cur := \<lparr>wins_left = [], win_cur = \<lparr>winid = 1000, winbuf = 1, cursor = 5\<rparr>,
                   wins_right = []\<rparr>,
       tabs_right := [],
       buffers := [(1, [''one'', ''abcdefg'', ''three'', ''four'', ''old'', ''six''])],
       trace := trace diff_editor @ [Command Tabclose, Command Tabclose]\<rparr>"
  have tabs: "map (map winbuf \<circ> windows_of) (all_tabs diff_editor) = [[1], [8, 9], [7]]"
    by (simp add: diff_editor_def opened_editor_def all_tabs_def windows_of_def)
  have once: "close (diff_task, diff_editor) = (?t1, ?e1)"
    by (simp add: close_def try_command_def nvim_command_def noted_def wipe_hidden_def
        displayed_def all_tabs_def windows_of_def diff_task_def diff_editor_def
        opened_editor_def)
  have twice: "close (?t1, ?e1) = (?t1, ?e2)"
    by (simp add: close_def try_command_def nvim_command_def noted_def wipe_hidden_def
        displayed_def all_tabs_def windows_of_def diff_task_def diff_editor_def
        opened_editor_def)
  have "?e2 \<noteq> ?e1"
  proof
    assume "?e2 = ?e1"
    then have "buffers ?e2 = buffers ?e1"
      by (rule arg_cong)
    then show False
      by simp
  qed
  then have "close (close (diff_task, diff_editor)) \<noteq> close (diff_task, diff_editor)"
    unfolding once twice by simp
  with run_example tabs show ?thesis
    unfolding once twice
    by (simp add: all_tabs_def windows_of_def diff_editor_def opened_editor_def
        buffer_lines_def)
qed

end
